theory Spec2Isabelle
  imports Complex_Main "HOL-Library.Multiset" "HOL-Library.Monad_Syntax"
begin

section \<open>Values and errors\<close>

text \<open>
  The scripts compute on NumPy arrays of 64-bit floats. A float is modelled as a real
  number or NaN: \<open>None\<close> is NaN, the value NumPy produces for \<open>0/0\<close>, and arithmetic
  on NaN gives NaN, comparisons with NaN are false. Rounding and overflow are not
  modelled. An index into an array is a NumPy integer: a negative index counts from the
  end, and an index outside \<open>[-n, n)\<close> raises \<open>IndexError\<close>.
\<close>

type_synonym float = "real option"

datatype error = IndexError

definition fadd :: "float \<Rightarrow> float \<Rightarrow> float" where
  "fadd a b = do { x \<leftarrow> a; y \<leftarrow> b; Some (x + y) }"

definition fsub :: "float \<Rightarrow> float \<Rightarrow> float" where
  "fsub a b = do { x \<leftarrow> a; y \<leftarrow> b; Some (x - y) }"

definition fmul :: "float \<Rightarrow> float \<Rightarrow> float" where
  "fmul a b = do { x \<leftarrow> a; y \<leftarrow> b; Some (x * y) }"

definition fgt :: "float \<Rightarrow> real \<Rightarrow> bool" where
  "fgt a c = (case a of None \<Rightarrow> False | Some x \<Rightarrow> c < x)"

definition fge :: "float \<Rightarrow> real \<Rightarrow> bool" where
  "fge a c = (case a of None \<Rightarrow> False | Some x \<Rightarrow> c \<le> x)"

definition flt :: "float \<Rightarrow> real \<Rightarrow> bool" where
  "flt a c = (case a of None \<Rightarrow> False | Some x \<Rightarrow> x < c)"

definition of_bool_float :: "bool \<Rightarrow> float" where
  "of_bool_float b = Some (if b then 1 else 0)"

text \<open>
  Division by a computed denominator. In the rate expressions of the three scripts the
  denominator \<open>exp x - 1\<close> (or \<open>1 - exp (-x)\<close>) vanishes exactly where the numerator
  does, so the quotient at a zero denominator is \<open>0/0\<close>, NaN.
\<close>

definition nan_div :: "real \<Rightarrow> real \<Rightarrow> float" where
  "nan_div x y = (if y = 0 then None else Some (x / y))"

text \<open>Indexing an array of length \<open>n\<close> with an integer, and with an array of integers.\<close>

definition np_index :: "nat \<Rightarrow> int \<Rightarrow> error + nat" where
  "np_index n i =
     (if 0 \<le> i \<and> i < int n then Inr (nat i)
      else if - int n \<le> i \<and> i < 0 then Inr (nat (i + int n))
      else Inl IndexError)"

fun np_indices :: "nat \<Rightarrow> int list \<Rightarrow> error + nat list" where
  "np_indices n [] = Inr []"
| "np_indices n (i # ids) =
     (case np_index n i of
        Inl e \<Rightarrow> Inl e
      | Inr j \<Rightarrow> (case np_indices n ids of Inl e \<Rightarrow> Inl e | Inr js \<Rightarrow> Inr (j # js)))"

text \<open>
  \<open>a[ids] += w\<close> for an index array \<open>ids\<close>: the values \<open>a[ids]\<close> are read first (any
  index out of range raises before anything is written), then \<open>a[ids] + w\<close> is written
  back at the same places.
\<close>

definition iadd_at :: "float list \<Rightarrow> int list \<Rightarrow> real \<Rightarrow> error + float list" where
  "iadd_at a ids w =
     (case np_indices (length a) ids of
        Inl e \<Rightarrow> Inl e
      | Inr js \<Rightarrow> Inr (fold (\<lambda>j acc. acc[j := fadd (a ! j) (Some w)]) js a))"

text \<open>
  The spike test of the neuron updates, \<open>np.logical_and(ST['V'] < theta, V >= theta)\<close>,
  stored in a float array as 1.0 or 0.0.
\<close>

definition crossing :: "float \<Rightarrow> float \<Rightarrow> real \<Rightarrow> float" where
  "crossing V_prev V_curr theta = of_bool_float (flt V_prev theta \<and> fge V_curr theta)"

section \<open>Numerical integration\<close>

text \<open>
  The functions decorated with \<open>@bp.integrate\<close> return the right-hand side of a
  differential equation; the decorator, which is part of the \<open>brainpy\<close> package and not of
  the three scripts, turns each into a function that advances its first argument by one
  time step. The neuron and synapse updates below take the one-step scheme as a parameter
  \<open>I\<close>: it receives the right-hand side as a function of the integrated variable, the
  other arguments being fixed, and the current value.
\<close>

type_synonym scheme = "(real \<Rightarrow> float) \<Rightarrow> real \<Rightarrow> float"

text \<open>
  Modelled from the spec: the one-step update that \<open>bp.integrate\<close> builds when
  \<open>bp.profile.set\<close> selects \<open>numerical_method='exponential'\<close>; the integrator belongs to
  the \<open>brainpy\<close> package and is not defined in the scripts. The spec describes it as the
  closed-form solution over one step of the linear equation. For a right-hand side
  \<open>f x = A * x + B\<close> the exact solution after \<open>dt\<close> is
  \<open>x + (exp (A * dt) - 1) / A * f x\<close> (and \<open>x + dt * f x\<close> when \<open>A = 0\<close>); the slope is
  read off as \<open>A = f 1 - f 0\<close>. Every right-hand side of the scripts is of that form
  except \<open>int_V\<close> of the gamma-oscillation script, whose sodium activation depends on
  \<open>V\<close>; there the same formula is a step \<open>x + w * f x\<close> with a positive weight \<open>w\<close>.
\<close>

definition exponential_step :: "real \<Rightarrow> scheme" where
  "exponential_step dt f x = do {
     f0 \<leftarrow> f 0; f1 \<leftarrow> f 1; fx \<leftarrow> f x;
     let A = f1 - f0;
     Some (x + (if A = 0 then dt else (exp (A * dt) - 1) / A) * fx) }"

section \<open>The COBAHH benchmark (COBAHH_brainpy.py)\<close>

text \<open>
  The constants of the script, the state \<open>neu_ST\<close> as a record of arrays, the right-hand
  sides as the decorated functions return them (suffix \<open>_rhs\<close>), the decorated functions
  themselves and \<open>neu_update\<close>. The local names \<open>g_na_\<close> and \<open>g_kd_\<close> of \<open>int_V\<close> are
  written \<open>g_na\<close> and \<open>g_kd\<close>. All arrays of a state have the length of the group.
\<close>

definition dt_cobahh :: real where "dt_cobahh = 0.1"
definition unit_cobahh :: real where "unit_cobahh = 1000000 * 1"
definition Cm :: real where "Cm = 200 / unit_cobahh"
definition gl :: real where "gl = 10 / unit_cobahh"
definition g_Na :: real where "g_Na = 20 * 1000 / unit_cobahh"
definition g_Kd :: real where "g_Kd = 6 * 1000 / unit_cobahh"
definition El :: real where "El = - 60"
definition EK :: real where "EK = - 90"
definition ENa :: real where "ENa = 50"
definition VT :: real where "VT = - 63"
definition Vt :: real where "Vt = - 20"
definition taue :: real where "taue = 5"
definition taui :: real where "taui = 10"
definition Ee :: real where "Ee = 0"
definition Ei :: real where "Ei = - 80"

record cobahh_state =
  c_V :: "float list"
  c_m :: "float list"
  c_n :: "float list"
  c_h :: "float list"
  c_sp :: "float list"
  c_ge :: "float list"
  c_gi :: "float list"

definition int_ge_rhs :: "real \<Rightarrow> real \<Rightarrow> float" where
  "int_ge_rhs ge t = Some (- ge / taue)"

definition int_gi_rhs :: "real \<Rightarrow> real \<Rightarrow> float" where
  "int_gi_rhs gi t = Some (- gi / taui)"

definition int_m_rhs :: "real \<Rightarrow> real \<Rightarrow> real \<Rightarrow> float" where
  "int_m_rhs m t V = do {
     let a = 13 - V + VT;
     let b = V - VT - 40;
     m_alpha \<leftarrow> nan_div (0.32 * a) (exp (a / 4) - 1);
     m_beta \<leftarrow> nan_div (0.28 * b) (exp (b / 5) - 1);
     let dmdt = m_alpha * (1 - m) - m_beta * m;
     Some dmdt }"

definition int_h_rhs :: "real \<Rightarrow> real \<Rightarrow> real \<Rightarrow> float" where
  "int_h_rhs h t V = do {
     let h_alpha = 0.128 * exp ((17 - V + VT) / 18);
     h_beta \<leftarrow> nan_div 4 (1 + exp (- (V - VT - 40) / 5));
     let dhdt = h_alpha * (1 - h) - h_beta * h;
     Some dhdt }"

definition int_n_rhs :: "real \<Rightarrow> real \<Rightarrow> real \<Rightarrow> float" where
  "int_n_rhs n t V = do {
     let c = 15 - V + VT;
     n_alpha \<leftarrow> nan_div (0.032 * c) (exp (c / 5) - 1);
     let n_beta = 0.5 * exp ((10 - V + VT) / 40);
     let dndt = n_alpha * (1 - n) - n_beta * n;
     Some dndt }"

definition int_V_rhs :: "real \<Rightarrow> real \<Rightarrow> real \<Rightarrow> real \<Rightarrow> real \<Rightarrow> real \<Rightarrow> real \<Rightarrow> float" where
  "int_V_rhs V t m h n ge gi =
     (let g_na = g_Na * (m * m * m) * h;
          g_kd = g_Kd * (n * n * n * n);
          dvdt = (gl * (El - V) + ge * (Ee - V) + gi * (Ei - V) -
                  g_na * (V - ENa) - g_kd * (V - EK)) / Cm
      in Some dvdt)"

definition int_ge :: "scheme \<Rightarrow> float \<Rightarrow> real \<Rightarrow> float" where
  "int_ge I ge t = do { ge \<leftarrow> ge; I (\<lambda>ge. int_ge_rhs ge t) ge }"

definition int_gi :: "scheme \<Rightarrow> float \<Rightarrow> real \<Rightarrow> float" where
  "int_gi I gi t = do { gi \<leftarrow> gi; I (\<lambda>gi. int_gi_rhs gi t) gi }"

definition int_m :: "scheme \<Rightarrow> float \<Rightarrow> real \<Rightarrow> float \<Rightarrow> float" where
  "int_m I m t V = do { m \<leftarrow> m; V \<leftarrow> V; I (\<lambda>m. int_m_rhs m t V) m }"

definition int_h :: "scheme \<Rightarrow> float \<Rightarrow> real \<Rightarrow> float \<Rightarrow> float" where
  "int_h I h t V = do { h \<leftarrow> h; V \<leftarrow> V; I (\<lambda>h. int_h_rhs h t V) h }"

definition int_n :: "scheme \<Rightarrow> float \<Rightarrow> real \<Rightarrow> float \<Rightarrow> float" where
  "int_n I n t V = do { n \<leftarrow> n; V \<leftarrow> V; I (\<lambda>n. int_n_rhs n t V) n }"

definition int_V :: "scheme \<Rightarrow> float \<Rightarrow> real \<Rightarrow> float \<Rightarrow> float \<Rightarrow> float \<Rightarrow> float \<Rightarrow> float \<Rightarrow> float" where
  "int_V I V t m h n ge gi = do {
     V \<leftarrow> V; m \<leftarrow> m; h \<leftarrow> h; n \<leftarrow> n; ge \<leftarrow> ge; gi \<leftarrow> gi;
     I (\<lambda>V. int_V_rhs V t m h n ge gi) V }"

definition neu_update :: "scheme \<Rightarrow> cobahh_state \<Rightarrow> real \<Rightarrow> cobahh_state" where
  "neu_update I ST t =
     (let ge = map (\<lambda>ge. int_ge I ge t) (c_ge ST);
          gi = map (\<lambda>gi. int_gi I gi t) (c_gi ST);
          m = map2 (\<lambda>m V. int_m I m t V) (c_m ST) (c_V ST);
          h = map2 (\<lambda>h V. int_h I h t V) (c_h ST) (c_V ST);
          n = map2 (\<lambda>n V. int_n I n t V) (c_n ST) (c_V ST);
          V = map (\<lambda>i. int_V I (c_V ST ! i) t (m ! i) (h ! i) (n ! i) (ge ! i) (gi ! i))
                [0..<length (c_V ST)];
          sp = map2 (\<lambda>V_prev V_curr. crossing V_prev V_curr Vt) (c_V ST) V
      in ST\<lparr> c_ge := ge, c_gi := gi, c_m := m, c_h := h, c_n := n, c_sp := sp, c_V := V \<rparr>)"

definition wf_cobahh :: "cobahh_state \<Rightarrow> bool" where
  "wf_cobahh ST \<longleftrightarrow>
     length (c_m ST) = length (c_V ST) \<and> length (c_n ST) = length (c_V ST) \<and>
     length (c_h ST) = length (c_V ST) \<and> length (c_sp ST) = length (c_V ST) \<and>
     length (c_ge ST) = length (c_V ST) \<and> length (c_gi ST) = length (c_V ST)"

section \<open>The gamma-oscillation network (gamma_oscillation.py)\<close>

text \<open>
  The Hodgkin-Huxley neuron of the script: constants, the state \<open>HH_ST\<close>, the right-hand
  sides, the decorated functions and the neuron's \<open>update\<close>, here \<open>update_HH\<close> (the script
  has a second \<open>update\<close> for the synapse). \<open>ST['inp'] = 0.\<close> sets every entry of the
  accumulator to zero.
\<close>

definition dt_gamma :: real where "dt_gamma = 0.05"
definition spike_threshold :: real where "spike_threshold = 0"
definition C_gamma :: real where "C_gamma = 1.0"
definition gLeak :: real where "gLeak = 0.1"
definition ELeak :: real where "ELeak = - 65"
definition gNa_gamma :: real where "gNa_gamma = 35"
definition ENa_gamma :: real where "ENa_gamma = 55"
definition gK_gamma :: real where "gK_gamma = 9"
definition EK_gamma :: real where "EK_gamma = - 90"
definition phi :: real where "phi = 5.0"

record hh_state =
  g_V :: "float list"
  g_h :: "float list"
  g_n :: "float list"
  g_sp :: "float list"
  g_inp :: "float list"

definition int_h_rhs_gamma :: "real \<Rightarrow> real \<Rightarrow> real \<Rightarrow> float" where
  "int_h_rhs_gamma h t V = do {
     let alpha = 0.07 * exp (- (V + 58) / 20);
     beta \<leftarrow> nan_div 1 (exp (- 0.1 * (V + 28)) + 1);
     let dhdt = alpha * (1 - h) - beta * h;
     Some (phi * dhdt) }"

definition int_n_rhs_gamma :: "real \<Rightarrow> real \<Rightarrow> real \<Rightarrow> float" where
  "int_n_rhs_gamma n t V = do {
     alpha \<leftarrow> nan_div (- 0.01 * (V + 34)) (exp (- 0.1 * (V + 34)) - 1);
     let beta = 0.125 * exp (- (V + 44) / 80);
     let dndt = alpha * (1 - n) - beta * n;
     Some (phi * dndt) }"

definition int_V_rhs_gamma :: "real \<Rightarrow> real \<Rightarrow> real \<Rightarrow> real \<Rightarrow> real \<Rightarrow> float" where
  "int_V_rhs_gamma V t h n Isyn = do {
     m_alpha \<leftarrow> nan_div (- 0.1 * (V + 35)) (exp (- 0.1 * (V + 35)) - 1);
     let m_beta = 4 * exp (- (V + 60) / 18);
     m \<leftarrow> nan_div m_alpha (m_alpha + m_beta);
     let INa = gNa_gamma * m ^ 3 * h * (V - ENa_gamma);
     let IK = gK_gamma * n ^ 4 * (V - EK_gamma);
     let IL = gLeak * (V - ELeak);
     let dvdt = (- INa - IK - IL + Isyn) / C_gamma;
     Some dvdt }"

definition int_h_gamma :: "scheme \<Rightarrow> float \<Rightarrow> real \<Rightarrow> float \<Rightarrow> float" where
  "int_h_gamma I h t V = do { h \<leftarrow> h; V \<leftarrow> V; I (\<lambda>h. int_h_rhs_gamma h t V) h }"

definition int_n_gamma :: "scheme \<Rightarrow> float \<Rightarrow> real \<Rightarrow> float \<Rightarrow> float" where
  "int_n_gamma I n t V = do { n \<leftarrow> n; V \<leftarrow> V; I (\<lambda>n. int_n_rhs_gamma n t V) n }"

definition int_V_gamma :: "scheme \<Rightarrow> float \<Rightarrow> real \<Rightarrow> float \<Rightarrow> float \<Rightarrow> float \<Rightarrow> float" where
  "int_V_gamma I V t h n Isyn = do {
     V \<leftarrow> V; h \<leftarrow> h; n \<leftarrow> n; Isyn \<leftarrow> Isyn;
     I (\<lambda>V. int_V_rhs_gamma V t h n Isyn) V }"

definition update_HH :: "scheme \<Rightarrow> hh_state \<Rightarrow> real \<Rightarrow> hh_state" where
  "update_HH I ST t =
     (let h = map2 (\<lambda>h V. int_h_gamma I h t V) (g_h ST) (g_V ST);
          n = map2 (\<lambda>n V. int_n_gamma I n t V) (g_n ST) (g_V ST);
          V = map (\<lambda>i. int_V_gamma I (g_V ST ! i) t (g_h ST ! i) (g_n ST ! i) (g_inp ST ! i))
                [0..<length (g_V ST)];
          sp = map2 (\<lambda>V_prev V_curr. crossing V_prev V_curr spike_threshold) (g_V ST) V
      in ST\<lparr> g_sp := sp, g_V := V, g_h := h, g_n := n,
              g_inp := map (\<lambda>_. Some 0) (g_inp ST) \<rparr>)"

definition wf_hh :: "hh_state \<Rightarrow> bool" where
  "wf_hh ST \<longleftrightarrow>
     length (g_h ST) = length (g_V ST) \<and> length (g_n ST) = length (g_V ST) \<and>
     length (g_sp ST) = length (g_V ST) \<and> length (g_inp ST) = length (g_V ST)"

text \<open>A state of one neuron at the potassium reversal potential, with closed \<open>h\<close> and \<open>n\<close> gates.\<close>

definition hh_example :: hh_state where
  "hh_example = \<lparr> g_V = [Some (- 90)], g_h = [Some 0], g_n = [Some 0], g_sp = [Some 0],
           g_inp = [Some (- 2.5)] \<rparr>"

text \<open>A state of one neuron of the COBAHH group.\<close>

definition cobahh_example :: cobahh_state where
  "cobahh_example = \<lparr> c_V = [Some (- 60)], c_m = [Some 0], c_n = [Some 0], c_h = [Some 0],
           c_sp = [Some 0], c_ge = [Some 0], c_gi = [Some 0] \<rparr>"

section \<open>Direct conductance increment (COBAHH_brainpy.py)\<close>

text \<open>
  \<open>exc_update\<close> and \<open>inh_update\<close> loop over \<open>range(len(pre2post))\<close>; for a source
  with \<open>pre['sp'][pre_id] > 0.\<close> they run \<open>post['ge'][post_ids] += we\<close> (respectively
  \<open>post['gi'][post_ids] += wi\<close>). The in-place addition at an index array reads
  \<open>post['ge'][post_ids]\<close>, adds the weight and writes the sums back at the same indices,
  so an index listed twice in one \<open>post_ids\<close> receives the weight once; \<open>iadd_at\<close> is
  that statement. \<open>syn_loop\<close> is the loop over a list of source ids in the order given,
  \<open>syn_body\<close> its body.
\<close>

definition fires :: "float list \<Rightarrow> nat \<Rightarrow> bool" where
  "fires sp pre_id = fgt (sp ! pre_id) 0"

definition syn_body :: "real \<Rightarrow> float list \<Rightarrow> int list list \<Rightarrow> nat \<Rightarrow> float list \<Rightarrow> error + float list" where
  "syn_body w sp pre2post pre_id g =
     (if length sp \<le> pre_id then Inl IndexError
      else if fires sp pre_id then iadd_at g (pre2post ! pre_id) w
      else Inr g)"

fun syn_loop :: "real \<Rightarrow> float list \<Rightarrow> int list list \<Rightarrow> nat list \<Rightarrow> float list \<Rightarrow> error + float list" where
  "syn_loop w sp pre2post [] g = Inr g"
| "syn_loop w sp pre2post (pre_id # rest) g =
     (case syn_body w sp pre2post pre_id g of
        Inl e \<Rightarrow> Inl e
      | Inr g' \<Rightarrow> syn_loop w sp pre2post rest g')"

definition we :: real where "we = 6 / unit_cobahh"
definition wi :: real where "wi = 67 / unit_cobahh"

definition exc_update :: "float list \<Rightarrow> float list \<Rightarrow> int list list \<Rightarrow> error + float list" where
  "exc_update pre_sp post_ge pre2post = syn_loop we pre_sp pre2post [0..<length pre2post] post_ge"

definition inh_update :: "float list \<Rightarrow> float list \<Rightarrow> int list list \<Rightarrow> error + float list" where
  "inh_update pre_sp post_gi pre2post = syn_loop wi pre_sp pre2post [0..<length pre2post] post_gi"

text \<open>
  The neurons a fan-out list addresses among \<open>n\<close> neurons, the lists with an id outside
  \<open>[-n, n)\<close>, one loop iteration on the result so far, and the sources at which the loop
  raises.
\<close>

definition targets :: "nat \<Rightarrow> int list \<Rightarrow> nat set" where
  "targets n ids = {j. \<exists>i \<in> set ids. np_index n i = Inr j}"

definition dangling :: "nat \<Rightarrow> int list \<Rightarrow> bool" where
  "dangling n ids = (\<exists>i \<in> set ids. i < - int n \<or> int n \<le> i)"

definition syn_step :: "real \<Rightarrow> float list \<Rightarrow> int list list \<Rightarrow> nat \<Rightarrow> error + float list \<Rightarrow> error + float list" where
  "syn_step w sp pre2post pre_id acc =
     (case acc of Inl e \<Rightarrow> Inl e | Inr g \<Rightarrow> syn_body w sp pre2post pre_id g)"

definition aborts :: "float list \<Rightarrow> int list list \<Rightarrow> nat \<Rightarrow> nat \<Rightarrow> bool" where
  "aborts sp pre2post n pre_id =
     (length sp \<le> pre_id \<or> (fires sp pre_id \<and> dangling n (pre2post ! pre_id)))"

section \<open>The GABAa synapse (gamma_oscillation.py)\<close>

text \<open>
  The constants of the synapse, its state \<open>ST\<close> with the per-synapse arrays \<open>g\<close>, \<open>s\<close>
  and \<open>pre_above_th\<close>, the right-hand side \<open>int_s\<close>, and the two steps \<open>update\<close> and
  \<open>output\<close> of the synapse type, here \<open>update_GABAa\<close> and \<open>output_GABAa\<close>. The groups
  enter through the arrays the steps read and write: \<open>pre['V']\<close>, \<open>post['V']\<close> and
  \<open>post['inp']\<close>. \<open>assign_at\<close> is \<open>a[ids] = v\<close> for an index array, \<open>np_take\<close> is
  \<open>a[ids]\<close>, \<open>np_sum\<close> is \<open>np.sum\<close>. In \<open>output\<close> the arrays \<open>post_cond\<close>, \<open>post['V']\<close>
  and \<open>post['inp']\<close> have one entry for every postsynaptic neuron. \<open>g_max\<close>, \<open>E\<close>,
  \<open>alpha\<close> and \<open>beta\<close> are the module-level values the two functions refer to.
\<close>

definition g_max :: real where "g_max = 0.1"
definition E_GABAa :: real where "E_GABAa = - 75"
definition alpha_GABAa :: real where "alpha_GABAa = 12"
definition beta_GABAa :: real where "beta_GABAa = 0.1"

record syn_state =
  s_g :: "float list"
  s_s :: "float list"
  s_pre_above_th :: "float list"

definition int_s_rhs :: "real \<Rightarrow> real \<Rightarrow> real \<Rightarrow> float" where
  "int_s_rhs s t TT = Some (alpha_GABAa * TT * (1 - s) - beta_GABAa * s)"

definition int_s :: "scheme \<Rightarrow> float \<Rightarrow> real \<Rightarrow> float \<Rightarrow> float" where
  "int_s I s t TT = do { s \<leftarrow> s; TT \<leftarrow> TT; I (\<lambda>s. int_s_rhs s t TT) s }"

definition assign_at :: "float list \<Rightarrow> int list \<Rightarrow> float \<Rightarrow> error + float list" where
  "assign_at a ids v =
     (case np_indices (length a) ids of
        Inl e \<Rightarrow> Inl e
      | Inr js \<Rightarrow> Inr (fold (\<lambda>j acc. acc[j := v]) js a))"

definition np_take :: "float list \<Rightarrow> int list \<Rightarrow> error + float list" where
  "np_take a ids =
     (case np_indices (length a) ids of
        Inl e \<Rightarrow> Inl e
      | Inr js \<Rightarrow> Inr (map (\<lambda>j. a ! j) js))"

definition np_sum :: "float list \<Rightarrow> float" where
  "np_sum xs = fold (\<lambda>x acc. fadd acc x) xs (Some 0)"

fun pre_loop :: "float list \<Rightarrow> int list list \<Rightarrow> nat list \<Rightarrow> float list \<Rightarrow> error + float list" where
  "pre_loop pre_V pre2syn [] a = Inr a"
| "pre_loop pre_V pre2syn (pre_id # rest) a =
     (if length pre_V \<le> pre_id then Inl IndexError
      else case assign_at a (pre2syn ! pre_id)
                  (fsub (pre_V ! pre_id) (Some spike_threshold)) of
             Inl e \<Rightarrow> Inl e
           | Inr a' \<Rightarrow> pre_loop pre_V pre2syn rest a')"

definition T_GABAa :: "float \<Rightarrow> float" where
  "T_GABAa pre_above_th = do { x \<leftarrow> pre_above_th; nan_div 1 (1 + exp (- x / 2)) }"

definition update_GABAa :: "scheme \<Rightarrow> syn_state \<Rightarrow> real \<Rightarrow> float list \<Rightarrow> int list list \<Rightarrow> error + syn_state" where
  "update_GABAa I ST t pre_V pre2syn =
     (case pre_loop pre_V pre2syn [0..<length pre2syn] (s_pre_above_th ST) of
        Inl e \<Rightarrow> Inl e
      | Inr pre_above_th \<Rightarrow>
          (let T = map T_GABAa pre_above_th;
               s = map2 (\<lambda>s TT. int_s I s t TT) (s_s ST) T
           in Inr (ST\<lparr> s_pre_above_th := pre_above_th, s_s := s,
                       s_g := map (\<lambda>s. fmul (Some g_max) s) s \<rparr>)))"

fun post_sums :: "float list \<Rightarrow> int list list \<Rightarrow> error + float list" where
  "post_sums g [] = Inr []"
| "post_sums g (syn_ids # rest) =
     (case np_take g syn_ids of
        Inl e \<Rightarrow> Inl e
      | Inr vs \<Rightarrow> (case post_sums g rest of
                    Inl e \<Rightarrow> Inl e
                  | Inr cs \<Rightarrow> Inr (np_sum vs # cs)))"

definition output_GABAa :: "syn_state \<Rightarrow> float list \<Rightarrow> float list \<Rightarrow> int list list \<Rightarrow> error + float list" where
  "output_GABAa ST post_V post_inp post2syn =
     (case post_sums (s_g ST) post2syn of
        Inl e \<Rightarrow> Inl e
      | Inr post_cond \<Rightarrow>
          Inr (map (\<lambda>i. fsub (post_inp ! i)
                           (fmul (post_cond ! i) (fsub (post_V ! i) (Some E_GABAa))))
                 [0..<length post_inp]))"

text \<open>
  A network of two neurons and two synapses: synapse 0 goes from neuron 0 to neuron 1,
  synapse 1 from neuron 1 to neuron 0.
\<close>

definition syn_example :: syn_state where
  "syn_example = \<lparr> s_g = [Some 0, Some 0], s_s = [Some 0, Some 0],
                   s_pre_above_th = [Some 0, Some 0] \<rparr>"

text \<open>Source \<open>p\<close> can be processed: it has a potential and its synapse ids are in range.\<close>

definition pre_ok :: "float list \<Rightarrow> int list list \<Rightarrow> nat \<Rightarrow> nat \<Rightarrow> bool" where
  "pre_ok pre_V pre2syn n p \<longleftrightarrow> p < length pre_V \<and> \<not> dangling n (pre2syn ! p)"

section \<open>Hodgkin-Huxley state as a dictionary of arrays (try_dict.py)\<close>

text \<open>
  \<open>dict_for_neuron_state\<close>: the constants, the dictionary \<open>d\<close> of nine arrays of length
  \<open>num\<close> as a record, the forward-Euler kernels \<open>int_m\<close>, \<open>int_h\<close>, \<open>int_n\<close>,
  \<open>judge_spike\<close> and \<open>neu_update_state\<close>. The voltage update of \<open>neu_update_state\<close>
  (\<open>INa\<close>, \<open>IK\<close>, \<open>IL\<close>, \<open>dvdt\<close>, \<open>V += dvdt * dt\<close>) is \<open>V_step_dict\<close> for one neuron.
  \<open>dict_for_parameters\<close> repeats the same functions on the rows of one two-dimensional
  array. The main loop calls \<open>neu_update_state\<close> once for every time of \<open>ts\<close>.
\<close>

definition dt_dict :: real where "dt_dict = 0.01"
definition E_Na_dict :: real where "E_Na_dict = 50"
definition g_Na_dict :: real where "g_Na_dict = 120"
definition E_K_dict :: real where "E_K_dict = - 77"
definition g_K_dict :: real where "g_K_dict = 36"
definition E_Leak_dict :: real where "E_Leak_dict = - 54.387"
definition g_Leak_dict :: real where "g_Leak_dict = 0.03"
definition C_dict :: real where "C_dict = 1.0"
definition Vr_dict :: real where "Vr_dict = - 65"
definition Vth_dict :: real where "Vth_dict = 20"

record neu_state =
  d_V :: "float list"
  d_m :: "float list"
  d_h :: "float list"
  d_n :: "float list"
  d_not_ref :: "float list"
  d_above_th :: "float list"
  d_spike :: "float list"
  d_spike_time :: "float list"
  d_Isyn :: "float list"

definition dict_for_neuron_state :: "nat \<Rightarrow> neu_state" where
  "dict_for_neuron_state num =
     \<lparr> d_V = replicate num (Some (1 * Vr_dict)),
       d_m = replicate num (Some 0),
       d_h = replicate num (Some 0),
       d_n = replicate num (Some 0),
       d_not_ref = replicate num (Some 1),
       d_above_th = replicate num (Some 0),
       d_spike = replicate num (Some 0),
       d_spike_time = replicate num (Some (1 * - 100000)),
       d_Isyn = replicate num (Some 0) \<rparr>"

definition int_m_dict :: "float \<Rightarrow> real \<Rightarrow> float \<Rightarrow> float" where
  "int_m_dict m t V = do {
     m \<leftarrow> m; V \<leftarrow> V;
     alpha \<leftarrow> nan_div (0.1 * (V + 40)) (1 - exp (- (V + 40) / 10));
     let beta = 4.0 * exp (- (V + 65) / 18);
     let dmdt = alpha * (1 - m) - beta * m;
     Some (m + dmdt * dt_dict) }"

definition int_h_dict :: "float \<Rightarrow> real \<Rightarrow> float \<Rightarrow> float" where
  "int_h_dict h t V = do {
     h \<leftarrow> h; V \<leftarrow> V;
     let alpha = 0.07 * exp (- (V + 65) / 20);
     beta \<leftarrow> nan_div 1 (1 + exp (- (V + 35) / 10));
     let dhdt = alpha * (1 - h) - beta * h;
     Some (h + dhdt * dt_dict) }"

definition int_n_dict :: "float \<Rightarrow> real \<Rightarrow> float \<Rightarrow> float" where
  "int_n_dict n t V = do {
     n \<leftarrow> n; V \<leftarrow> V;
     alpha \<leftarrow> nan_div (0.01 * (V + 55)) (1 - exp (- (V + 55) / 10));
     let beta = 0.125 * exp (- (V + 65) / 80);
     let dndt = alpha * (1 - n) - beta * n;
     Some (n + dndt * dt_dict) }"

definition V_step_dict :: "float \<Rightarrow> float \<Rightarrow> float \<Rightarrow> float \<Rightarrow> float \<Rightarrow> float" where
  "V_step_dict V m h n Isyn = do {
     V \<leftarrow> V; m \<leftarrow> m; h \<leftarrow> h; n \<leftarrow> n; Isyn \<leftarrow> Isyn;
     let INa = g_Na_dict * m ^ 3 * h * (V - E_Na_dict);
     let IK = g_K_dict * n ^ 4 * (V - E_K_dict);
     let IL = g_Leak_dict * (V - E_Leak_dict);
     let dvdt = (- INa - IK - IL + Isyn) / C_dict;
     Some (V + dvdt * dt_dict) }"

definition judge_spike :: "neu_state \<Rightarrow> real \<Rightarrow> real \<Rightarrow> nat list \<times> neu_state" where
  "judge_spike neu_state vth t =
     (let above_threshold = map (\<lambda>v. of_bool_float (fge v vth)) (d_V neu_state);
          prev_above_th = d_above_th neu_state;
          spike_st = map2 (\<lambda>a p. fmul a (fsub (Some 1) p)) above_threshold prev_above_th;
          spike_idx = filter (\<lambda>i. fgt (spike_st ! i) 0) [0..<length spike_st]
      in (spike_idx,
          neu_state\<lparr> d_above_th := above_threshold,
                      d_spike := spike_st,
                      d_spike_time := fold (\<lambda>i a. a[i := Some t]) spike_idx
                                        (d_spike_time neu_state) \<rparr>))"

definition neu_update_state :: "neu_state \<Rightarrow> real \<Rightarrow> neu_state" where
  "neu_update_state st t =
     (let V = d_V st;
          m = map2 (\<lambda>m V. int_m_dict m t V) (d_m st) V;
          h = map2 (\<lambda>h V. int_h_dict h t V) (d_h st) V;
          n = map2 (\<lambda>n V. int_n_dict n t V) (d_n st) V;
          V = map (\<lambda>i. V_step_dict (V ! i) (m ! i) (h ! i) (n ! i) (d_Isyn st ! i))
                [0..<length V]
      in snd (judge_spike
                (st\<lparr> d_V := V, d_m := m, d_h := h, d_n := n,
                     d_Isyn := map (\<lambda>_. Some 0) (d_Isyn st) \<rparr>)
                Vth_dict t))"

definition run_dict :: "neu_state \<Rightarrow> real list \<Rightarrow> neu_state" where
  "run_dict d ts = fold (\<lambda>t st. neu_update_state st t) ts d"

text \<open>
  Neuron \<open>i\<close> has a positive spike entry; the flag array agrees with the potential; all
  arrays have one length; and the state that \<open>neu_update_state\<close> hands to \<open>judge_spike\<close>.
\<close>

definition spiked :: "neu_state \<Rightarrow> nat \<Rightarrow> bool" where
  "spiked st i = fgt (d_spike st ! i) 0"

definition flag_inv :: "neu_state \<Rightarrow> bool" where
  "flag_inv st \<longleftrightarrow>
     (\<forall>i<length (d_V st). d_above_th st ! i = of_bool_float (fge (d_V st ! i) Vth_dict))"

definition wf_dict :: "neu_state \<Rightarrow> bool" where
  "wf_dict st \<longleftrightarrow>
     length (d_m st) = length (d_V st) \<and> length (d_h st) = length (d_V st) \<and>
     length (d_n st) = length (d_V st) \<and> length (d_not_ref st) = length (d_V st) \<and>
     length (d_above_th st) = length (d_V st) \<and> length (d_spike st) = length (d_V st) \<and>
     length (d_spike_time st) = length (d_V st) \<and> length (d_Isyn st) = length (d_V st)"


definition pre_judge :: "neu_state \<Rightarrow> real \<Rightarrow> neu_state" where
  "pre_judge st t =
     (let V = d_V st;
          m = map2 (\<lambda>m V. int_m_dict m t V) (d_m st) V;
          h = map2 (\<lambda>h V. int_h_dict h t V) (d_h st) V;
          n = map2 (\<lambda>n V. int_n_dict n t V) (d_n st) V;
          V = map (\<lambda>i. V_step_dict (V ! i) (m ! i) (h ! i) (n ! i) (d_Isyn st ! i))
                [0..<length V]
      in st\<lparr> d_V := V, d_m := m, d_h := h, d_n := n,
                     d_Isyn := map (\<lambda>_. Some 0) (d_Isyn st) \<rparr>)"

text \<open>Neuron \<open>i\<close> spikes in step \<open>k\<close> (counted from 0) of the run over the times \<open>ts\<close>.\<close>

definition spikes_at :: "neu_state \<Rightarrow> real list \<Rightarrow> nat \<Rightarrow> nat \<Rightarrow> bool" where
  "spikes_at d ts k i = spiked (run_dict d (take (Suc k) ts)) i"

text \<open>A state of one neuron whose potential is above \<open>Vth\<close> while its flag is still 0.\<close>

definition dict_example :: neu_state where
  "dict_example = (dict_for_neuron_state 1)\<lparr> d_V := [Some 30] \<rparr>"

text \<open>
  The rate expressions \<open>alpha\<close> and \<open>beta\<close> of \<open>int_m\<close>, \<open>int_h\<close> and \<open>int_n\<close> of
  try_dict.py as functions of the potential, and those of \<open>int_h\<close> of the gamma script.
\<close>

definition m_alpha_dict :: "real \<Rightarrow> real" where
  "m_alpha_dict V = 0.1 * (V + 40) / (1 - exp (- (V + 40) / 10))"

definition m_beta_dict :: "real \<Rightarrow> real" where
  "m_beta_dict V = 4.0 * exp (- (V + 65) / 18)"

definition h_alpha_dict :: "real \<Rightarrow> real" where
  "h_alpha_dict V = 0.07 * exp (- (V + 65) / 20)"

definition h_beta_dict :: "real \<Rightarrow> real" where
  "h_beta_dict V = 1 / (1 + exp (- (V + 35) / 10))"

definition n_alpha_dict :: "real \<Rightarrow> real" where
  "n_alpha_dict V = 0.01 * (V + 55) / (1 - exp (- (V + 55) / 10))"

definition n_beta_dict :: "real \<Rightarrow> real" where
  "n_beta_dict V = 0.125 * exp (- (V + 65) / 80)"

definition h_alpha_gamma :: "real \<Rightarrow> real" where
  "h_alpha_gamma V = 0.07 * exp (- (V + 58) / 20)"

definition h_beta_gamma :: "real \<Rightarrow> real" where
  "h_beta_gamma V = 1 / (exp (- 0.1 * (V + 28)) + 1)"

text \<open>A finite value in the unit interval: what a gating variable is meant to be.\<close>

definition unit_float :: "float \<Rightarrow> bool" where
  "unit_float z \<longleftrightarrow> (\<exists>y. z = Some y \<and> 0 \<le> y \<and> y \<le> 1)"

section \<open>Properties of the synaptic delivery\<close>

lemma np_index_Inl: "np_index n i = Inl e \<longleftrightarrow> (i < - int n \<or> int n \<le> i)"
  by (cases e) (auto simp: np_index_def)

lemma np_index_Inr_less: "np_index n i = Inr j \<Longrightarrow> j < n"
  by (auto simp: np_index_def split: if_splits)

lemma np_indices_Inl: "(\<exists>e. np_indices n ids = Inl e) \<longleftrightarrow> dangling n ids"
proof (induction ids)
  case Nil
  show ?case by (simp add: dangling_def)
next
  case (Cons i ids)
  have d: "dangling n (i # ids) \<longleftrightarrow> (i < - int n \<or> int n \<le> i) \<or> dangling n ids"
    by (auto simp: dangling_def)
  show ?case
  proof (cases "np_index n i")
    case (Inl e)
    then show ?thesis using np_index_Inl[of n i e] d by simp
  next
    case (Inr j)
    then have "\<not> (i < - int n \<or> int n \<le> i)"
      using np_index_Inl[of n i IndexError] by simp
    then show ?thesis using Inr Cons.IH d by (auto split: sum.splits)
  qed
qed

lemma np_indices_Inr_set: "np_indices n ids = Inr js \<Longrightarrow> set js = targets n ids"
proof (induction ids arbitrary: js)
  case Nil
  then show ?case by (simp add: targets_def)
next
  case (Cons i ids)
  then obtain j js' where j: "np_index n i = Inr j" and js': "np_indices n ids = Inr js'"
    and eq: "js = j # js'"
    by (auto split: sum.splits)
  have "targets n (i # ids) = insert j (targets n ids)"
    using j by (auto simp: targets_def)
  then show ?case using Cons.IH[OF js'] eq by simp
qed

lemma targets_less: "j \<in> targets n ids \<Longrightarrow> j < n"
  by (auto simp: targets_def dest: np_index_Inr_less)

lemma fold_upd_length:
  "length (fold (\<lambda>j acc. acc[j := f j]) js a) = length a"
  by (induction js arbitrary: a) auto

lemma fold_upd_nth:
  "x < length a \<Longrightarrow>
   fold (\<lambda>j acc. acc[j := f j]) js a ! x = (if x \<in> set js then f x else a ! x)"
proof (induction js arbitrary: a)
  case Nil
  show ?case by simp
next
  case (Cons j js)
  then show ?case by (auto simp: nth_list_update)
qed

lemma iadd_at_Inl: "(\<exists>e. iadd_at a ids w = Inl e) \<longleftrightarrow> dangling (length a) ids"
  using np_indices_Inl[of "length a" ids]
  by (auto simp: iadd_at_def split: sum.splits)

lemma iadd_at_error: "iadd_at a ids w = Inl e \<Longrightarrow> e = IndexError"
  by (cases e) simp

lemma iadd_at_Inr:
  assumes "iadd_at a ids w = Inr a'"
  shows "length a' = length a"
    and "x < length a \<Longrightarrow>
         a' ! x = (if x \<in> targets (length a) ids then fadd (a ! x) (Some w) else a ! x)"
proof -
  from assms obtain js where js: "np_indices (length a) ids = Inr js"
    and a': "a' = fold (\<lambda>j acc. acc[j := fadd (a ! j) (Some w)]) js a"
    by (auto simp: iadd_at_def split: sum.splits)
  show "length a' = length a" using a' by (simp add: fold_upd_length)
  show "a' ! x = (if x \<in> targets (length a) ids then fadd (a ! x) (Some w) else a ! x)"
    if "x < length a"
    using that a' np_indices_Inr_set[OF js] by (simp add: fold_upd_nth)
qed

lemma iadd_at_total:
  "\<not> dangling (length a) ids \<Longrightarrow> \<exists>a'. iadd_at a ids w = Inr a'"
  using iadd_at_Inl[of a ids w] by (cases "iadd_at a ids w") auto


lemma error_is_IndexError: "(e::error) = IndexError"
  by (cases e) simp

lemma syn_body_Inl:
  "(syn_body w sp pre2post p g = Inl IndexError) \<longleftrightarrow> aborts sp pre2post (length g) p"
proof -
  have "(iadd_at g (pre2post ! p) w = Inl IndexError) \<longleftrightarrow> dangling (length g) (pre2post ! p)"
    using iadd_at_Inl[of g "pre2post ! p" w] error_is_IndexError by metis
  then show ?thesis by (simp add: syn_body_def aborts_def)
qed

lemma syn_body_cases:
  obtains "syn_body w sp pre2post p g = Inl IndexError" "aborts sp pre2post (length g) p"
  | g' where "syn_body w sp pre2post p g = Inr g'" "\<not> aborts sp pre2post (length g) p"
proof (cases "syn_body w sp pre2post p g")
  case (Inl e)
  then have "syn_body w sp pre2post p g = Inl IndexError"
    using error_is_IndexError[of e] by simp
  then show ?thesis using that(1) syn_body_Inl by blast
next
  case (Inr g')
  then have "\<not> aborts sp pre2post (length g) p"
    using syn_body_Inl[of w sp pre2post p g] by simp
  then show ?thesis using that(2) Inr by blast
qed

lemma syn_body_Inr:
  assumes "syn_body w sp pre2post p g = Inr g'"
  shows "length g' = length g"
    and "x < length g \<Longrightarrow>
       g' ! x = (if fires sp p \<and> x \<in> targets (length g) (pre2post ! p)
                 then fadd (g ! x) (Some w) else g ! x)"
proof -
  show "length g' = length g"
  proof (cases "fires sp p")
    case True
    then have "iadd_at g (pre2post ! p) w = Inr g'"
      using assms by (simp add: syn_body_def split: if_splits)
    then show ?thesis by (rule iadd_at_Inr(1))
  next
    case False
    then show ?thesis using assms by (simp add: syn_body_def split: if_splits)
  qed
  show "g' ! x = (if fires sp p \<and> x \<in> targets (length g) (pre2post ! p)
                 then fadd (g ! x) (Some w) else g ! x)" if x: "x < length g"
  proof (cases "fires sp p")
    case True
    then have "iadd_at g (pre2post ! p) w = Inr g'"
      using assms by (simp add: syn_body_def split: if_splits)
    from iadd_at_Inr(2)[OF this x] True show ?thesis by simp
  next
    case False
    then show ?thesis using assms by (simp add: syn_body_def split: if_splits)
  qed
qed

lemma syn_step_Inl: "syn_step w sp pre2post p (Inl e) = Inl e"
  by (simp add: syn_step_def)

lemma syn_step_Inr: "syn_step w sp pre2post p (Inr g) = syn_body w sp pre2post p g"
  by (simp add: syn_step_def)

lemma fold_syn_step_Inl: "fold (syn_step w sp pre2post) ps (Inl e) = Inl e"
  by (induction ps) (simp_all add: syn_step_Inl)

lemma syn_loop_fold:
  "syn_loop w sp pre2post ps g = fold (syn_step w sp pre2post) ps (Inr g)"
proof (induction ps arbitrary: g)
  case Nil
  show ?case by simp
next
  case (Cons p ps)
  show ?case
  proof (cases "syn_body w sp pre2post p g")
    case (Inl e)
    then show ?thesis by (simp add: syn_step_Inr fold_syn_step_Inl)
  next
    case (Inr g')
    then show ?thesis using Cons.IH[of g'] by (simp add: syn_step_Inr)
  qed
qed

lemma syn_body_twice:
  "syn_step w sp pre2post q (syn_body w sp pre2post p g) = Inl IndexError"
  if "aborts sp pre2post (length g) p \<or> aborts sp pre2post (length g) q"
proof (cases rule: syn_body_cases[of w sp pre2post p g])
  case 1
  then show ?thesis by (simp add: syn_step_Inl)
next
  case (2 g')
  then have "aborts sp pre2post (length g') q"
    using that syn_body_Inr(1)[OF 2(1)] by simp
  then show ?thesis using 2(1) syn_body_Inl[of w sp pre2post q g'] by (simp add: syn_step_Inr)
qed

lemma syn_body_commute:
  "syn_step w sp pre2post q (syn_body w sp pre2post p g) =
   syn_step w sp pre2post p (syn_body w sp pre2post q g)"
proof (cases "aborts sp pre2post (length g) p \<or> aborts sp pre2post (length g) q")
  case True
  then have "aborts sp pre2post (length g) q \<or> aborts sp pre2post (length g) p" by blast
  then show ?thesis using syn_body_twice[OF True] syn_body_twice[of sp pre2post g q p w] by simp
next
  case False
  obtain gp where gp: "syn_body w sp pre2post p g = Inr gp"
    using False by (cases rule: syn_body_cases[of w sp pre2post p g]) auto
  obtain gq where gq: "syn_body w sp pre2post q g = Inr gq"
    using False by (cases rule: syn_body_cases[of w sp pre2post q g]) auto
  have lp: "length gp = length g" by (rule syn_body_Inr(1)[OF gp])
  have lq: "length gq = length g" by (rule syn_body_Inr(1)[OF gq])
  obtain gpq where gpq: "syn_body w sp pre2post q gp = Inr gpq"
    using False lp by (cases rule: syn_body_cases[of w sp pre2post q gp]) auto
  obtain gqp where gqp: "syn_body w sp pre2post p gq = Inr gqp"
    using False lq by (cases rule: syn_body_cases[of w sp pre2post p gq]) auto
  have "gpq = gqp"
  proof (rule nth_equalityI)
    show "length gpq = length gqp"
      using syn_body_Inr(1)[OF gpq] syn_body_Inr(1)[OF gqp] lp lq by simp
  next
    fix x assume "x < length gpq"
    then have x: "x < length g" using syn_body_Inr(1)[OF gpq] lp by simp
    have a: "gp ! x = (if fires sp p \<and> x \<in> targets (length g) (pre2post ! p)
                 then fadd (g ! x) (Some w) else g ! x)"
      by (rule syn_body_Inr(2)[OF gp x])
    have b: "gq ! x = (if fires sp q \<and> x \<in> targets (length g) (pre2post ! q)
                 then fadd (g ! x) (Some w) else g ! x)"
      by (rule syn_body_Inr(2)[OF gq x])
    have c: "gpq ! x = (if fires sp q \<and> x \<in> targets (length g) (pre2post ! q)
                 then fadd (gp ! x) (Some w) else gp ! x)"
      using syn_body_Inr(2)[OF gpq, of x] x lp by simp
    have d: "gqp ! x = (if fires sp p \<and> x \<in> targets (length g) (pre2post ! p)
                 then fadd (gq ! x) (Some w) else gq ! x)"
      using syn_body_Inr(2)[OF gqp, of x] x lq by simp
    show "gpq ! x = gqp ! x"
      unfolding c d a b by simp
  qed
  then show ?thesis using gp gq gpq gqp by (simp add: syn_step_Inr)
qed

lemma syn_step_commute:
  "syn_step w sp pre2post q (syn_step w sp pre2post p acc) =
   syn_step w sp pre2post p (syn_step w sp pre2post q acc)"
proof (cases acc)
  case (Inl e)
  then show ?thesis by (simp add: syn_step_Inl)
next
  case (Inr g)
  then show ?thesis using syn_body_commute[of w sp pre2post q p g] by (simp add: syn_step_Inr)
qed

lemma syn_loop_permute:
  assumes "mset order = mset ps"
  shows "syn_loop w sp pre2post order g = syn_loop w sp pre2post ps g"
proof -
  have "syn_step w sp pre2post x \<circ> syn_step w sp pre2post y =
        syn_step w sp pre2post y \<circ> syn_step w sp pre2post x" for x y
    by (rule ext) (simp add: syn_step_commute[of w sp pre2post x y])
  then have "fold (syn_step w sp pre2post) order = fold (syn_step w sp pre2post) ps"
    using assms by (intro fold_multiset_equiv) blast+
  then show ?thesis by (simp add: syn_loop_fold)
qed


lemma syn_loop_abort_iff:
  "(syn_loop w sp pre2post ps g = Inl IndexError) \<longleftrightarrow>
   (\<exists>p \<in> set ps. aborts sp pre2post (length g) p)"
proof (induction ps arbitrary: g)
  case Nil
  show ?case by simp
next
  case (Cons p ps)
  show ?case
  proof (cases rule: syn_body_cases[of w sp pre2post p g])
    case 1
    then show ?thesis by simp
  next
    case (2 g')
    have "length g' = length g" by (rule syn_body_Inr(1)[OF 2(1)])
    then show ?thesis using 2 Cons.IH[of g'] by simp
  qed
qed

lemma fadd_Some: "fadd (Some a) (Some b) = Some (a + b)"
  by (simp add: fadd_def)

lemma syn_loop_sum:
  assumes "\<forall>p \<in> set ps. \<not> aborts sp pre2post (length g) p"
    and "X < length g" and "g ! X = Some x"
  shows "\<exists>g'. syn_loop w sp pre2post ps g = Inr g' \<and> length g' = length g \<and>
     g' ! X = Some (x + w * real (length
        (filter (\<lambda>p. fires sp p \<and> X \<in> targets (length g) (pre2post ! p)) ps)))"
  using assms
proof (induction ps arbitrary: g x)
  case Nil
  then show ?case by simp
next
  case (Cons p ps)
  from Cons.prems(1) have np: "\<not> aborts sp pre2post (length g) p" by simp
  then obtain g1 where g1: "syn_body w sp pre2post p g = Inr g1"
    by (cases rule: syn_body_cases[of w sp pre2post p g]) auto
  have l1: "length g1 = length g" by (rule syn_body_Inr(1)[OF g1])
  let ?hit = "fires sp p \<and> X \<in> targets (length g) (pre2post ! p)"
  have v1: "g1 ! X = Some (x + (if ?hit then w else 0))"
    using syn_body_Inr(2)[OF g1 Cons.prems(2)] Cons.prems(3) by (simp add: fadd_Some)
  have p1: "\<forall>q \<in> set ps. \<not> aborts sp pre2post (length g1) q"
    using Cons.prems(1) l1 by simp
  have X1: "X < length g1" using Cons.prems(2) l1 by simp
  from Cons.IH[OF p1 X1 v1] obtain g' where
    g': "syn_loop w sp pre2post ps g1 = Inr g'" "length g' = length g1"
    "g' ! X = Some (x + (if ?hit then w else 0) + w * real (length
        (filter (\<lambda>p. fires sp p \<and> X \<in> targets (length g1) (pre2post ! p)) ps)))"
    by blast
  have "syn_loop w sp pre2post (p # ps) g = Inr g'" using g1 g'(1) by simp
  moreover have "length g' = length g" using g'(2) l1 by simp
  moreover have "g' ! X = Some (x + w * real (length
        (filter (\<lambda>p. fires sp p \<and> X \<in> targets (length g) (pre2post ! p)) (p # ps))))"
    using g'(3) l1 by (simp add: algebra_simps)
  ultimately show ?case by blast
qed

lemma length_filter_upt:
  "length (filter P [0..<n]) = card {p. p < n \<and> P p}"
proof -
  have "{i. i < length [0..<n] \<and> P ([0..<n] ! i)} = {p. p < n \<and> P p}"
    by auto
  then show ?thesis using length_filter_conv_card[of P "[0..<n]"] by simp
qed

lemma np_index_Inr_iff:
  "np_index n i = Inr j \<longleftrightarrow>
   (0 \<le> i \<and> i < int n \<and> j = nat i) \<or> (- int n \<le> i \<and> i < 0 \<and> j = nat (i + int n))"
  by (auto simp: np_index_def)

lemma targets_addressed:
  assumes "X < n"
  shows "X \<in> targets n ids \<longleftrightarrow> (\<exists>i \<in> set ids. i = int X \<or> i = int X - int n)"
proof
  assume "X \<in> targets n ids"
  then obtain i where i: "i \<in> set ids" "np_index n i = Inr X"
    by (auto simp: targets_def)
  from i(2) have "i = int X \<or> i = int X - int n"
    unfolding np_index_Inr_iff by auto
  then show "\<exists>i \<in> set ids. i = int X \<or> i = int X - int n" using i(1) by blast
next
  assume "\<exists>i \<in> set ids. i = int X \<or> i = int X - int n"
  then obtain i where i: "i \<in> set ids" "i = int X \<or> i = int X - int n" by blast
  have "np_index n i = Inr X"
    unfolding np_index_Inr_iff using i(2) assms by auto
  then show "X \<in> targets n ids" using i(1) by (auto simp: targets_def)
qed

lemma syn_update_sum:
  assumes "\<forall>p<length pre2post. \<not> aborts sp pre2post (length g) p"
    and "X < length g" and "g ! X = Some x"
  shows "\<exists>g'. syn_loop w sp pre2post [0..<length pre2post] g = Inr g' \<and>
     g' ! X = Some (x + w * real (card {p. p < length pre2post \<and> fires sp p \<and>
                                             X \<in> targets (length g) (pre2post ! p)}))"
proof -
  have "\<forall>p \<in> set [0..<length pre2post]. \<not> aborts sp pre2post (length g) p"
    using assms(1) by simp
  from syn_loop_sum[OF this assms(2,3), of w] show ?thesis
    by (auto simp: length_filter_upt)
qed

text \<open>
  C5. Direct-conductance delivery is an additive scatter-add that does not depend on the
  order of the sources: running the loop of \<open>exc_update\<close> (\<open>inh_update\<close>) over any
  permutation of the source ids gives the result of the loop as written, errors included;
  and when no source raises, the conductance of neuron \<open>X\<close> grows by the weight once for
  every spiking source whose fan-out list addresses \<open>X\<close>.
\<close>

theorem scatter_add_order_independent:
  "(mset order = mset [0..<length pre2post] \<longrightarrow>
      syn_loop we pre_sp pre2post order g = exc_update pre_sp g pre2post \<and>
      syn_loop wi pre_sp pre2post order g = inh_update pre_sp g pre2post) \<and>
   ((\<forall>p<length pre2post. \<not> aborts pre_sp pre2post (length g) p) \<and>
      X < length g \<and> g ! X = Some x \<longrightarrow>
      (\<exists>ge'. exc_update pre_sp g pre2post = Inr ge' \<and>
         ge' ! X = Some (x + we * real (card {p. p < length pre2post \<and> fires pre_sp p \<and>
                                     X \<in> targets (length g) (pre2post ! p)}))) \<and>
      (\<exists>gi'. inh_update pre_sp g pre2post = Inr gi' \<and>
         gi' ! X = Some (x + wi * real (card {p. p < length pre2post \<and> fires pre_sp p \<and>
                                     X \<in> targets (length g) (pre2post ! p)}))))"
proof (intro conjI impI)
  assume "mset order = mset [0..<length pre2post]"
  then show "syn_loop we pre_sp pre2post order g = exc_update pre_sp g pre2post"
    unfolding exc_update_def by (rule syn_loop_permute)
next
  assume "mset order = mset [0..<length pre2post]"
  then show "syn_loop wi pre_sp pre2post order g = inh_update pre_sp g pre2post"
    unfolding inh_update_def by (rule syn_loop_permute)
next
  assume a: "(\<forall>p<length pre2post. \<not> aborts pre_sp pre2post (length g) p) \<and>
      X < length g \<and> g ! X = Some x"
  then show "\<exists>ge'. exc_update pre_sp g pre2post = Inr ge' \<and>
         ge' ! X = Some (x + we * real (card {p. p < length pre2post \<and> fires pre_sp p \<and>
                                     X \<in> targets (length g) (pre2post ! p)}))"
    unfolding exc_update_def using syn_update_sum[of pre2post pre_sp g X x we] by blast
next
  assume a: "(\<forall>p<length pre2post. \<not> aborts pre_sp pre2post (length g) p) \<and>
      X < length g \<and> g ! X = Some x"
  then show "\<exists>gi'. inh_update pre_sp g pre2post = Inr gi' \<and>
         gi' ! X = Some (x + wi * real (card {p. p < length pre2post \<and> fires pre_sp p \<and>
                                     X \<in> targets (length g) (pre2post ! p)}))"
    unfolding inh_update_def using syn_update_sum[of pre2post pre_sp g X x wi] by blast
qed

lemma aborts_example:
  "\<not> aborts [Some 1, Some 1] [[0], [0]] (length [Some (0::real)]) p \<longleftrightarrow> p < 2"
  by (auto simp: aborts_def dangling_def fires_def fgt_def nth_Cons split: nat.splits)

theorem scatter_add_order_independent_witness:
  "mset [1, 0] = mset [0..<length [[0], [0::int]]] \<and>
   syn_loop we [Some 1, Some 1] [[0], [0]] [1, 0] [Some 0] =
     exc_update [Some 1, Some 1] [Some 0] [[0], [0]] \<and>
   syn_loop wi [Some 1, Some 1] [[0], [0]] [1, 0] [Some 0] =
     inh_update [Some 1, Some 1] [Some 0] [[0], [0]] \<and>
   (\<exists>ge'. exc_update [Some 1, Some 1] [Some 0] [[0], [0]] = Inr ge' \<and>
       ge' ! 0 = Some (0 + we * real (card {p. p < length [[0], [0::int]] \<and>
          fires [Some 1, Some 1] p \<and> 0 \<in> targets (length [Some (0::real)]) ([[0], [0]] ! p)})))"
proof -
  have m: "mset [1, 0] = mset [0..<length [[0], [0::int]]]"
    by (simp add: upt_rec)
  have h: "(\<forall>p<length [[0], [0::int]].
      \<not> aborts [Some 1, Some 1] [[0], [0]] (length [Some (0::real)]) p) \<and>
      (0::nat) < length [Some (0::real)] \<and> [Some (0::real)] ! 0 = Some 0"
    using aborts_example by simp
  show ?thesis
    using m h scatter_add_order_independent[of "[1, 0]" "[[0], [0]]" "[Some 1, Some 1]"
        "[Some 0]" 0 0]
    by blast
qed

text \<open>
  C7 (amended). \<open>exc_update\<close> does not validate the adjacency: it raises \<open>IndexError\<close>
  exactly when, during the delivery, it reaches a source id beyond the spike array or a
  source that spikes in this step and whose fan-out list holds an id outside \<open>[-n, n)\<close>
  for \<open>n\<close> postsynaptic neurons. The fan-out list of a source that does not spike is
  never examined, and an id in \<open>[-n, -1]\<close> addresses neuron \<open>n + id\<close>.
\<close>

theorem exc_update_abort_iff:
  "((exc_update pre_sp post_ge pre2post = Inl IndexError) \<longleftrightarrow>
    (\<exists>p<length pre2post. length pre_sp \<le> p \<or>
        (fires pre_sp p \<and> dangling (length post_ge) (pre2post ! p)))) \<and>
   (exc_update pre_sp post_ge pre2post \<noteq> Inl IndexError \<and>
      X < length post_ge \<and> post_ge ! X = Some x \<longrightarrow>
      (\<exists>ge'. exc_update pre_sp post_ge pre2post = Inr ge' \<and>
         ge' ! X = Some (x + we * real (card {p. p < length pre2post \<and> fires pre_sp p \<and>
           (\<exists>i \<in> set (pre2post ! p). i = int X \<or> i = int X - int (length post_ge))}))))"
proof (intro conjI impI)
  show iff: "(exc_update pre_sp post_ge pre2post = Inl IndexError) \<longleftrightarrow>
    (\<exists>p<length pre2post. length pre_sp \<le> p \<or>
        (fires pre_sp p \<and> dangling (length post_ge) (pre2post ! p)))"
    unfolding exc_update_def syn_loop_abort_iff by (simp add: aborts_def Bex_def)
  assume a: "exc_update pre_sp post_ge pre2post \<noteq> Inl IndexError \<and>
      X < length post_ge \<and> post_ge ! X = Some x"
  then have ok: "\<forall>p<length pre2post. \<not> aborts pre_sp pre2post (length post_ge) p"
    using iff by (auto simp: aborts_def)
  have "{p. p < length pre2post \<and> fires pre_sp p \<and>
           X \<in> targets (length post_ge) (pre2post ! p)} =
        {p. p < length pre2post \<and> fires pre_sp p \<and>
           (\<exists>i \<in> set (pre2post ! p). i = int X \<or> i = int X - int (length post_ge))}"
    using a by (auto simp: targets_addressed)
  then show "\<exists>ge'. exc_update pre_sp post_ge pre2post = Inr ge' \<and>
         ge' ! X = Some (x + we * real (card {p. p < length pre2post \<and> fires pre_sp p \<and>
           (\<exists>i \<in> set (pre2post ! p). i = int X \<or> i = int X - int (length post_ge))}))"
    unfolding exc_update_def using syn_update_sum[of pre2post pre_sp post_ge X x we] ok a
    by simp
qed

theorem exc_update_abort_iff_witness:
  "exc_update [Some 1] [Some 0, Some 0] [[7]] = Inl IndexError \<and>
   exc_update [Some 1] [Some 0, Some 5] [[-1]] \<noteq> Inl IndexError \<and>
   (\<exists>ge'. exc_update [Some 1] [Some 0, Some 5] [[-1]] = Inr ge' \<and>
         ge' ! 1 = Some (5 + we * real (card {p. p < length [[-1::int]] \<and> fires [Some 1] p \<and>
           (\<exists>i \<in> set ([[-1]] ! p). i = int 1 \<or> i = int 1 - int (length [Some (0::real), Some 5]))})))"
proof -
  have 1: "\<exists>p<length [[7::int]]. length [Some (1::real)] \<le> p \<or>
        (fires [Some 1] p \<and> dangling (length [Some (0::real), Some 0]) ([[7]] ! p))"
    by (rule exI[of _ 0]) (simp add: fires_def fgt_def dangling_def)
  have 2: "exc_update [Some 1] [Some 0, Some 5] [[-1]] \<noteq> Inl IndexError"
    by (simp add: exc_update_def syn_body_def fires_def fgt_def iadd_at_def np_index_def)
  have 3: "(1::nat) < length [Some (0::real), Some 5] \<and> [Some (0::real), Some 5] ! 1 = Some 5"
    by simp
  show ?thesis
    using 1 2 3 exc_update_abort_iff[of "[Some 1]" "[Some 0, Some 0]" "[[7]]"]
      exc_update_abort_iff[of "[Some 1]" "[Some 0, Some 5]" "[[-1]]" 1 5]
    by blast
qed

theorem exc_update_dangling_counterexample:
  "dangling (length [Some (0::real), Some 0]) [7] \<and>
   exc_update [Some 0] [Some 0, Some 0] [[7]] = Inr [Some 0, Some 0] \<and>
   exc_update [Some 1] [Some 0, Some 0] [[-1]] = Inr [Some 0, Some we]"
  by (simp add: exc_update_def syn_body_def fires_def fgt_def iadd_at_def np_index_def
      dangling_def fadd_def)

section \<open>Properties of the neuron updates\<close>

lemma neu_update_fields:
  assumes "wf_cobahh ST" and "i < length (c_V ST)"
  shows "c_ge (neu_update I ST t) ! i = int_ge I (c_ge ST ! i) t"
    and "c_gi (neu_update I ST t) ! i = int_gi I (c_gi ST ! i) t"
    and "c_m (neu_update I ST t) ! i = int_m I (c_m ST ! i) t (c_V ST ! i)"
    and "c_h (neu_update I ST t) ! i = int_h I (c_h ST ! i) t (c_V ST ! i)"
    and "c_n (neu_update I ST t) ! i = int_n I (c_n ST ! i) t (c_V ST ! i)"
  using assms by (simp_all add: neu_update_def Let_def wf_cobahh_def)

lemma neu_update_V:
  assumes "i < length (c_V ST)"
  shows "c_V (neu_update I ST t) ! i =
     int_V I (c_V ST ! i) t (c_m (neu_update I ST t) ! i) (c_h (neu_update I ST t) ! i)
       (c_n (neu_update I ST t) ! i) (c_ge (neu_update I ST t) ! i)
       (c_gi (neu_update I ST t) ! i)"
  using assms by (simp add: neu_update_def Let_def)

lemma neu_update_sp:
  assumes "i < length (c_V ST)"
  shows "c_sp (neu_update I ST t) ! i =
     crossing (c_V ST ! i) (c_V (neu_update I ST t) ! i) Vt"
  using assms by (simp add: neu_update_def Let_def)

lemma update_HH_fields:
  assumes "wf_hh ST" and "i < length (g_V ST)"
  shows "g_h (update_HH I ST t) ! i = int_h_gamma I (g_h ST ! i) t (g_V ST ! i)"
    and "g_n (update_HH I ST t) ! i = int_n_gamma I (g_n ST ! i) t (g_V ST ! i)"
  using assms by (simp_all add: update_HH_def Let_def wf_hh_def)

lemma update_HH_V:
  assumes "i < length (g_V ST)"
  shows "g_V (update_HH I ST t) ! i =
     int_V_gamma I (g_V ST ! i) t (g_h ST ! i) (g_n ST ! i) (g_inp ST ! i)"
  using assms by (simp add: update_HH_def Let_def)

lemma update_HH_sp:
  assumes "i < length (g_V ST)"
  shows "g_sp (update_HH I ST t) ! i =
     crossing (g_V ST ! i) (g_V (update_HH I ST t) ! i) spike_threshold"
  using assms by (simp add: update_HH_def Let_def)

lemma update_HH_inp:
  "g_inp (update_HH I ST t) = replicate (length (g_inp ST)) (Some 0)"
  by (simp add: update_HH_def Let_def map_replicate_const)

lemma update_HH_length: "length (g_V (update_HH I ST t)) = length (g_V ST)"
  by (simp add: update_HH_def Let_def)

lemma update_HH_wf: "wf_hh ST \<Longrightarrow> wf_hh (update_HH I ST t)"
  by (simp add: update_HH_def Let_def wf_hh_def)


lemma expm1_nonzero: "exp (x::real) - 1 = 0 \<longleftrightarrow> x = 0"
  by simp

lemma x_over_expm1_pos:
  fixes x :: real
  assumes "x \<noteq> 0"
  shows "0 < x / (exp x - 1)"
proof (cases "0 < x")
  case True
  then have "0 < exp x - 1" by simp
  then show ?thesis using True by simp
next
  case False
  then have x: "x < 0" using assms by simp
  then have "exp x - 1 < 0" by simp
  then show ?thesis using x by (simp add: divide_neg_neg)
qed

lemma exp_weight_pos:
  fixes A dt :: real
  assumes "0 < dt"
  shows "0 < (if A = 0 then dt else (exp (A * dt) - 1) / A)"
proof -
  consider "A = 0" | "0 < A" | "A < 0" by linarith
  then show ?thesis
  proof cases
    case 1
    then show ?thesis using assms by simp
  next
    case 2
    then have "0 < A * dt" using assms by simp
    then have "0 < exp (A * dt) - 1" by simp
    then have "0 < (exp (A * dt) - 1) / A" using 2 by (rule divide_pos_pos)
    then show ?thesis using 2 by simp
  next
    case 3
    then have "A * dt < 0" using assms by (simp add: mult_neg_pos)
    then have "exp (A * dt) - 1 < 0" by simp
    then have "0 < (exp (A * dt) - 1) / A" using 3 by (rule divide_neg_neg)
    then show ?thesis using 3 by simp
  qed
qed

lemma exponential_step_Some:
  assumes "0 < dt" and "f 0 = Some f0" and "f 1 = Some f1" and "f x = Some fx"
  obtains w where "0 < w" and "exponential_step dt f x = Some (x + w * fx)"
proof -
  let ?w = "if f1 - f0 = 0 then dt else (exp ((f1 - f0) * dt) - 1) / (f1 - f0)"
  have "0 < ?w" by (rule exp_weight_pos[OF assms(1)])
  moreover have "exponential_step dt f x = Some (x + ?w * fx)"
    using assms(2-4) by (simp add: exponential_step_def Let_def)
  ultimately show ?thesis using that by blast
qed

lemma int_V_rhs_gamma_Some:
  assumes "V \<noteq> - 35"
  obtains m where "0 < m" and
    "int_V_rhs_gamma V t h n Isyn =
       Some ((- (gNa_gamma * m ^ 3 * h * (V - ENa_gamma)) - gK_gamma * n ^ 4 * (V - EK_gamma)
              - gLeak * (V - ELeak) + Isyn) / C_gamma)"
proof -
  let ?x = "- 0.1 * (V + 35)"
  let ?a = "?x / (exp ?x - 1)"
  let ?b = "4 * exp (- (V + 60) / 18)"
  have x: "?x \<noteq> 0" using assms by simp
  have a: "0 < ?a" by (rule x_over_expm1_pos[OF x])
  have b: "0 < ?b" by simp
  have ab: "0 < ?a + ?b" using a b by (rule add_pos_pos)
  have d: "exp ?x - 1 \<noteq> 0" using x by simp
  have 1: "nan_div ?x (exp ?x - 1) = Some ?a" using d by (simp add: nan_div_def)
  have 2: "nan_div ?a (?a + ?b) = Some (?a / (?a + ?b))" using ab by (simp add: nan_div_def)
  have m: "0 < ?a / (?a + ?b)" using a ab by (rule divide_pos_pos)
  have "int_V_rhs_gamma V t h n Isyn =
       Some ((- (gNa_gamma * (?a / (?a + ?b)) ^ 3 * h * (V - ENa_gamma))
              - gK_gamma * n ^ 4 * (V - EK_gamma) - gLeak * (V - ELeak) + Isyn) / C_gamma)"
    unfolding int_V_rhs_gamma_def 1 using 2 by (simp add: Let_def)
  then show ?thesis using that m by blast
qed

lemma int_h_rhs_gamma_Some:
  "int_h_rhs_gamma h t V =
     Some (phi * (0.07 * exp (- (V + 58) / 20) * (1 - h) - 1 / (exp (- 0.1 * (V + 28)) + 1) * h))"
proof -
  have "exp (- 0.1 * (V + 28)) + 1 > 0" by (simp add: add_pos_pos)
  then have "nan_div 1 (exp (- 0.1 * (V + 28)) + 1) = Some (1 / (exp (- 0.1 * (V + 28)) + 1))"
    by (simp add: nan_div_def)
  then show ?thesis by (simp add: int_h_rhs_gamma_def Let_def)
qed

lemma int_n_rhs_gamma_Some:
  assumes "V \<noteq> - 34"
  shows "\<exists>r. int_n_rhs_gamma n t V = Some r"
proof -
  have "exp (- 0.1 * (V + 34)) - 1 \<noteq> 0" using assms by simp
  then show ?thesis by (simp add: int_n_rhs_gamma_def nan_div_def Let_def)
qed

lemma dt_gamma_pos: "0 < dt_gamma"
  by (simp add: dt_gamma_def)

lemma gamma_code_side:
  "int_V_gamma (exponential_step dt_gamma) (Some (- 90)) t (Some 0) (Some 0) (Some (- 2.5))
     = Some (- 90)"
proof -
  let ?f = "\<lambda>V. int_V_rhs_gamma V t 0 0 (- 2.5)"
  obtain f0 where f0: "?f 0 = Some f0"
    using int_V_rhs_gamma_Some[of 0 t 0 0 "- 2.5"] by auto
  obtain f1 where f1: "?f 1 = Some f1"
    using int_V_rhs_gamma_Some[of 1 t 0 0 "- 2.5"] by auto
  have fx: "?f (- 90) = Some 0"
    using int_V_rhs_gamma_Some[of "- 90" t 0 0 "- 2.5"]
    by (auto simp: gLeak_def ELeak_def C_gamma_def)
  from exponential_step_Some[OF dt_gamma_pos f0 f1 fx]
  have "exponential_step dt_gamma ?f (- 90) = Some (- 90)" by auto
  then show ?thesis by (simp add: int_V_gamma_def)
qed

lemma gamma_new_h:
  obtains h1 where "0 < h1"
    and "int_h_gamma (exponential_step dt_gamma) (Some 0) t (Some (- 90)) = Some h1"
proof -
  let ?f = "\<lambda>h. int_h_rhs_gamma h t (- 90)"
  let ?a = "0.07 * exp (- (- 90 + 58) / 20) :: real"
  have f0: "?f 0 = Some (phi * ?a)" by (simp add: int_h_rhs_gamma_Some)
  obtain f1 where f1: "?f 1 = Some f1" by (simp add: int_h_rhs_gamma_Some)
  from exponential_step_Some[OF dt_gamma_pos f0 f1 f0]
  obtain w where w: "0 < w" "exponential_step dt_gamma ?f 0 = Some (0 + w * (phi * ?a))"
    by blast
  have "0 < phi * ?a" by (simp add: phi_def)
  then have "0 < 0 + w * (phi * ?a)" using w(1) by simp
  moreover have "int_h_gamma (exponential_step dt_gamma) (Some 0) t (Some (- 90))
      = Some (0 + w * (phi * ?a))"
    using w(2) by (simp add: int_h_gamma_def)
  ultimately show ?thesis using that by blast
qed

lemma gamma_new_n:
  obtains n1 where "int_n_gamma (exponential_step dt_gamma) (Some 0) t (Some (- 90)) = Some n1"
proof -
  let ?f = "\<lambda>n. int_n_rhs_gamma n t (- 90)"
  obtain f0 where f0: "?f 0 = Some f0" using int_n_rhs_gamma_Some[of "- 90" 0 t] by auto
  obtain f1 where f1: "?f 1 = Some f1" using int_n_rhs_gamma_Some[of "- 90" 1 t] by auto
  from exponential_step_Some[OF dt_gamma_pos f0 f1 f0]
  obtain w where "exponential_step dt_gamma ?f 0 = Some (0 + w * f0)" by blast
  then have "int_n_gamma (exponential_step dt_gamma) (Some 0) t (Some (- 90))
      = Some (0 + w * f0)"
    by (simp add: int_n_gamma_def)
  then show ?thesis using that by blast
qed

lemma gamma_staggered_side:
  assumes "0 < h1"
  obtains v where "- 90 < v" and
    "int_V_gamma (exponential_step dt_gamma) (Some (- 90)) t (Some h1) (Some n1) (Some (- 2.5))
       = Some v"
proof -
  let ?f = "\<lambda>V. int_V_rhs_gamma V t h1 n1 (- 2.5)"
  obtain f0 where f0: "?f 0 = Some f0"
    using int_V_rhs_gamma_Some[of 0 t h1 n1 "- 2.5"] by auto
  obtain f1 where f1: "?f 1 = Some f1"
    using int_V_rhs_gamma_Some[of 1 t h1 n1 "- 2.5"] by auto
  obtain m where m: "0 < m" and
    fx: "?f (- 90) = Some ((- (gNa_gamma * m ^ 3 * h1 * (- 90 - ENa_gamma))
              - gK_gamma * n1 ^ 4 * (- 90 - EK_gamma) - gLeak * (- 90 - ELeak) + - 2.5) / C_gamma)"
    using int_V_rhs_gamma_Some[of "- 90" t h1 n1 "- 2.5"] by auto
  let ?fx = "(- (gNa_gamma * m ^ 3 * h1 * (- 90 - ENa_gamma))
              - gK_gamma * n1 ^ 4 * (- 90 - EK_gamma) - gLeak * (- 90 - ELeak) + - 2.5) / C_gamma"
  have "?fx = 5075 * (m ^ 3 * h1)"
    by (simp add: gNa_gamma_def ENa_gamma_def gK_gamma_def EK_gamma_def gLeak_def ELeak_def
        C_gamma_def)
  moreover have "0 < m ^ 3 * h1" using m assms by simp
  ultimately have pos: "0 < ?fx" by simp
  from exponential_step_Some[OF dt_gamma_pos f0 f1 fx]
  obtain w where w: "0 < w" "exponential_step dt_gamma ?f (- 90) = Some (- 90 + w * ?fx)"
    by blast
  have "0 < w * ?fx" using w(1) pos by (rule mult_pos_pos)
  then have "- 90 < - 90 + w * ?fx" by (simp only: less_add_same_cancel1)
  moreover have "int_V_gamma (exponential_step dt_gamma) (Some (- 90)) t (Some h1) (Some n1)
      (Some (- 2.5)) = Some (- 90 + w * ?fx)"
    using w(2) by (simp add: int_V_gamma_def)
  ultimately show ?thesis using that by blast
qed

theorem update_HH_not_staggered_counterexample:
  "g_V (update_HH (exponential_step dt_gamma) hh_example 0) = [Some (- 90)] \<and>
   (case int_V_gamma (exponential_step dt_gamma) (Some (- 90)) 0
           (int_h_gamma (exponential_step dt_gamma) (Some 0) 0 (Some (- 90)))
           (int_n_gamma (exponential_step dt_gamma) (Some 0) 0 (Some (- 90)))
           (Some (- 2.5)) of
      Some v \<Rightarrow> - 90 < v
    | None \<Rightarrow> False)"
proof
  show "g_V (update_HH (exponential_step dt_gamma) hh_example 0) = [Some (- 90)]"
    using gamma_code_side[of 0] by (simp add: update_HH_def hh_example_def Let_def)
  obtain h1 where h1: "0 < h1"
    "int_h_gamma (exponential_step dt_gamma) (Some 0) 0 (Some (- 90)) = Some h1"
    by (rule gamma_new_h)
  obtain n1 where n1:
    "int_n_gamma (exponential_step dt_gamma) (Some 0) 0 (Some (- 90)) = Some n1"
    by (rule gamma_new_n)
  obtain v where v: "- 90 < v"
    "int_V_gamma (exponential_step dt_gamma) (Some (- 90)) 0 (Some h1) (Some n1) (Some (- 2.5))
       = Some v"
    by (rule gamma_staggered_side[OF h1(1)])
  show "case int_V_gamma (exponential_step dt_gamma) (Some (- 90)) 0
           (int_h_gamma (exponential_step dt_gamma) (Some 0) 0 (Some (- 90)))
           (int_n_gamma (exponential_step dt_gamma) (Some 0) 0 (Some (- 90)))
           (Some (- 2.5)) of
      Some v \<Rightarrow> - 90 < v
    | None \<Rightarrow> False"
    unfolding h1(2) n1 v(2) using v(1) by simp
qed

section \<open>Rate expressions at their singular voltages\<close>

lemma one_minus_exp_zero: "1 - exp (x::real) = 0 \<longleftrightarrow> x = 0"
  by (metis exp_eq_one_iff right_minus_eq)

lemma int_m_dict_nan: "int_m_dict (Some m) t (Some V) = None \<longleftrightarrow> V = - 40"
proof -
  have "1 - exp (- (V + 40) / 10) = 0 \<longleftrightarrow> V = - 40"
    unfolding one_minus_exp_zero by auto
  then show ?thesis by (simp add: int_m_dict_def nan_div_def Let_def)
qed

lemma int_n_dict_nan: "int_n_dict (Some n) t (Some V) = None \<longleftrightarrow> V = - 55"
proof -
  have "1 - exp (- (V + 55) / 10) = 0 \<longleftrightarrow> V = - 55"
    unfolding one_minus_exp_zero by auto
  then show ?thesis by (simp add: int_n_dict_def nan_div_def Let_def)
qed

lemma int_m_rhs_nan: "int_m_rhs m t V = None \<longleftrightarrow> V = VT + 13 \<or> V = VT + 40"
proof -
  have a: "exp ((13 - V + VT) / 4) - 1 = 0 \<longleftrightarrow> V = VT + 13" by auto
  have b: "exp ((V - VT - 40) / 5) - 1 = 0 \<longleftrightarrow> V = VT + 40" by auto
  show ?thesis using a b by (auto simp: int_m_rhs_def nan_div_def Let_def)
qed

lemma int_n_rhs_nan: "int_n_rhs n t V = None \<longleftrightarrow> V = VT + 15"
proof -
  have a: "exp ((15 - V + VT) / 5) - 1 = 0 \<longleftrightarrow> V = VT + 15" by auto
  show ?thesis using a by (auto simp: int_n_rhs_def nan_div_def Let_def)
qed

lemma int_n_rhs_gamma_nan: "int_n_rhs_gamma n t V = None \<longleftrightarrow> V = - 34"
proof -
  have a: "exp (- 0.1 * (V + 34)) - 1 = 0 \<longleftrightarrow> V = - 34" by auto
  show ?thesis using a by (auto simp: int_n_rhs_gamma_def nan_div_def Let_def)
qed

lemma int_V_rhs_gamma_nan: "int_V_rhs_gamma V t h n Isyn = None \<longleftrightarrow> V = - 35"
proof (cases "V = - 35")
  case True
  then show ?thesis by (simp add: int_V_rhs_gamma_def nan_div_def)
next
  case False
  then show ?thesis using int_V_rhs_gamma_Some[of V t h n Isyn] by auto
qed

lemma exponential_step_nan: "f x = None \<Longrightarrow> exponential_step dt f x = None"
  by (cases "f 0"; cases "f 1") (simp_all add: exponential_step_def)

text \<open>
  C2 (amended). The rate expressions of the form \<open>x / (exp x - 1)\<close> are evaluated as
  written, with no limit substituted: a kernel or right-hand side that contains one is
  NaN exactly at the voltage where the denominator vanishes and finite at every other
  voltage. These voltages are \<open>-40\<close> for \<open>int_m\<close> and \<open>-55\<close> for \<open>int_n\<close> of try_dict.py,
  \<open>VT + 13\<close> and \<open>VT + 40\<close> for \<open>int_m\<close> and \<open>VT + 15\<close> for \<open>int_n\<close> of the COBAHH
  script, \<open>-34\<close> for \<open>int_n\<close> and \<open>-35\<close> for \<open>int_V\<close> of the gamma script.
\<close>

theorem rate_singularities_are_nan:
  "(int_m_dict (Some m) t (Some V) = None \<longleftrightarrow> V = - 40) \<and>
   (int_n_dict (Some n) t (Some V) = None \<longleftrightarrow> V = - 55) \<and>
   (int_m_rhs m t V = None \<longleftrightarrow> V = VT + 13 \<or> V = VT + 40) \<and>
   (int_n_rhs n t V = None \<longleftrightarrow> V = VT + 15) \<and>
   (int_n_rhs_gamma n t V = None \<longleftrightarrow> V = - 34) \<and>
   (int_V_rhs_gamma V t h n Isyn = None \<longleftrightarrow> V = - 35)"
  using int_m_dict_nan[of m t V] int_n_dict_nan[of n t V] int_m_rhs_nan[of m t V]
    int_n_rhs_nan[of n t V] int_n_rhs_gamma_nan[of n t V] int_V_rhs_gamma_nan[of V t h n Isyn]
  by blast

theorem rate_singularities_counterexample:
  "int_m_dict (Some 0) 0 (Some (- 40)) = None \<and>
   int_n_dict (Some 0) 0 (Some (- 55)) = None \<and>
   int_m_rhs 0 0 (VT + 13) = None \<and>
   int_m_rhs 0 0 (VT + 40) = None \<and>
   int_n_rhs_gamma 0 0 (- 34) = None \<and>
   int_V_rhs_gamma (- 35) 0 0 0 0 = None \<and>
   int_m (exponential_step dt_cobahh) (Some 0) 0 (Some (VT + 13)) = None"
  by (simp add: int_m_dict_nan int_n_dict_nan int_m_rhs_nan int_n_rhs_gamma_nan
      int_V_rhs_gamma_nan int_m_def exponential_step_nan)

section \<open>Bounded gating variables and exponential decay\<close>

lemma u_over_expm1_dict:
  fixes V c :: real
  assumes "V \<noteq> - c"
  shows "0 < (V + c) / (1 - exp (- (V + c) / 10))"
proof (cases "0 < V + c")
  case True
  then have "- (V + c) / 10 < 0" by simp
  then have "0 < 1 - exp (- (V + c) / 10)" by simp
  with True show ?thesis by (rule divide_pos_pos)
next
  case False
  then have n: "V + c < 0" using assms by simp
  then have "0 < - (V + c) / 10" by simp
  then have "1 - exp (- (V + c) / 10) < 0" by simp
  with n show ?thesis by (rule divide_neg_neg)
qed

lemma m_alpha_dict_pos: "V \<noteq> - 40 \<Longrightarrow> 0 < m_alpha_dict V"
proof -
  assume "V \<noteq> - 40"
  then have "0 < (V + 40) / (1 - exp (- (V + 40) / 10))" by (rule u_over_expm1_dict)
  then have "0 < 0.1 * ((V + 40) / (1 - exp (- (V + 40) / 10)))"
    by (intro mult_pos_pos) simp_all
  then show ?thesis by (simp only: m_alpha_dict_def times_divide_eq_right)
qed

lemma n_alpha_dict_pos: "V \<noteq> - 55 \<Longrightarrow> 0 < n_alpha_dict V"
proof -
  assume "V \<noteq> - 55"
  then have "0 < (V + 55) / (1 - exp (- (V + 55) / 10))" by (rule u_over_expm1_dict)
  then have "0 < 0.01 * ((V + 55) / (1 - exp (- (V + 55) / 10)))"
    by (intro mult_pos_pos) simp_all
  then show ?thesis by (simp only: n_alpha_dict_def times_divide_eq_right)
qed

lemma beta_dict_pos: "0 < m_beta_dict V" "0 < n_beta_dict V" "0 < h_alpha_dict V"
  "0 < h_beta_dict V" "0 < h_alpha_gamma V" "0 < h_beta_gamma V"
  by (simp_all add: m_beta_dict_def n_beta_dict_def h_alpha_dict_def h_beta_dict_def
      h_alpha_gamma_def h_beta_gamma_def add_pos_pos)

lemma int_m_dict_eq:
  "V \<noteq> - 40 \<Longrightarrow> int_m_dict (Some m) t (Some V) =
     Some (m + (m_alpha_dict V * (1 - m) - m_beta_dict V * m) * dt_dict)"
proof -
  assume "V \<noteq> - 40"
  then have "1 - exp (- (V + 40) / 10) \<noteq> 0" unfolding one_minus_exp_zero by auto
  then show ?thesis
    by (simp add: int_m_dict_def nan_div_def Let_def m_alpha_dict_def m_beta_dict_def)
qed

lemma int_n_dict_eq:
  "V \<noteq> - 55 \<Longrightarrow> int_n_dict (Some n) t (Some V) =
     Some (n + (n_alpha_dict V * (1 - n) - n_beta_dict V * n) * dt_dict)"
proof -
  assume "V \<noteq> - 55"
  then have "1 - exp (- (V + 55) / 10) \<noteq> 0" unfolding one_minus_exp_zero by auto
  then show ?thesis
    by (simp add: int_n_dict_def nan_div_def Let_def n_alpha_dict_def n_beta_dict_def)
qed

lemma int_h_dict_eq:
  "int_h_dict (Some h) t (Some V) =
     Some (h + (h_alpha_dict V * (1 - h) - h_beta_dict V * h) * dt_dict)"
proof -
  have "0 < 1 + exp (- (V + 35) / 10)" by (simp add: add_pos_pos)
  then have "1 + exp (- (V + 35) / 10) \<noteq> 0" by simp
  then show ?thesis
    by (simp add: int_h_dict_def nan_div_def Let_def h_alpha_dict_def h_beta_dict_def)
qed

lemma euler_gate_bounded:
  fixes x a b dt :: real
  assumes "0 \<le> x" "x \<le> 1" "0 \<le> a" "0 \<le> b" "0 \<le> dt" "(a + b) * dt \<le> 1"
  shows "0 \<le> x + (a * (1 - x) - b * x) * dt" and "x + (a * (1 - x) - b * x) * dt \<le> 1"
proof -
  have eq: "x + (a * (1 - x) - b * x) * dt = x * (1 - (a + b) * dt) + a * dt"
    by (simp add: algebra_simps)
  have c: "0 \<le> 1 - (a + b) * dt" using assms(6) by simp
  have "0 \<le> x * (1 - (a + b) * dt)" using assms(1) c by (rule mult_nonneg_nonneg)
  moreover have "0 \<le> a * dt" using assms(3,5) by (rule mult_nonneg_nonneg)
  ultimately show "0 \<le> x + (a * (1 - x) - b * x) * dt" unfolding eq by simp
  have "x * (1 - (a + b) * dt) \<le> 1 * (1 - (a + b) * dt)"
    using assms(2) c by (rule mult_right_mono)
  moreover have "0 \<le> b * dt" using assms(4,5) by (rule mult_nonneg_nonneg)
  ultimately show "x + (a * (1 - x) - b * x) * dt \<le> 1"
    unfolding eq by (simp add: algebra_simps)
qed

lemma funpow_unit_float:
  assumes "unit_float z" and "\<And>y. unit_float y \<Longrightarrow> unit_float (f y)"
  shows "unit_float ((f ^^ k) z)"
  using assms by (induction k) simp_all

lemma int_m_dict_unit:
  assumes "V \<noteq> - 40" and "(m_alpha_dict V + m_beta_dict V) * dt_dict \<le> 1"
    and "unit_float z"
  shows "unit_float (int_m_dict z t (Some V))"
proof -
  from assms(3) obtain x where x: "z = Some x" "0 \<le> x" "x \<le> 1"
    by (auto simp: unit_float_def)
  have a: "0 \<le> m_alpha_dict V" using m_alpha_dict_pos[OF assms(1)] by simp
  have b: "0 \<le> m_beta_dict V" using beta_dict_pos(1)[of V] by simp
  have d: "0 \<le> dt_dict" by (simp add: dt_dict_def)
  show ?thesis
    unfolding x(1) int_m_dict_eq[OF assms(1)] unit_float_def
    using euler_gate_bounded[OF x(2,3) a b d assms(2)] by simp
qed

lemma int_n_dict_unit:
  assumes "V \<noteq> - 55" and "(n_alpha_dict V + n_beta_dict V) * dt_dict \<le> 1"
    and "unit_float z"
  shows "unit_float (int_n_dict z t (Some V))"
proof -
  from assms(3) obtain x where x: "z = Some x" "0 \<le> x" "x \<le> 1"
    by (auto simp: unit_float_def)
  have a: "0 \<le> n_alpha_dict V" using n_alpha_dict_pos[OF assms(1)] by simp
  have b: "0 \<le> n_beta_dict V" using beta_dict_pos(2)[of V] by simp
  have d: "0 \<le> dt_dict" by (simp add: dt_dict_def)
  show ?thesis
    unfolding x(1) int_n_dict_eq[OF assms(1)] unit_float_def
    using euler_gate_bounded[OF x(2,3) a b d assms(2)] by simp
qed

lemma int_h_dict_unit:
  assumes "(h_alpha_dict V + h_beta_dict V) * dt_dict \<le> 1" and "unit_float z"
  shows "unit_float (int_h_dict z t (Some V))"
proof -
  from assms(2) obtain x where x: "z = Some x" "0 \<le> x" "x \<le> 1"
    by (auto simp: unit_float_def)
  have a: "0 \<le> h_alpha_dict V" using beta_dict_pos(3)[of V] by simp
  have b: "0 \<le> h_beta_dict V" using beta_dict_pos(4)[of V] by simp
  have d: "0 \<le> dt_dict" by (simp add: dt_dict_def)
  show ?thesis
    unfolding x(1) int_h_dict_eq unit_float_def
    using euler_gate_bounded[OF x(2,3) a b d assms(1)] by simp
qed

lemma exponential_step_affine:
  assumes "\<And>y. f y = Some (A * y + B)" and "A \<noteq> 0"
  shows "exponential_step dt f x = Some (exp (A * dt) * x + (exp (A * dt) - 1) * (B / A))"
proof -
  have "exponential_step dt f x = Some (x + (exp (A * dt) - 1) / A * (A * x + B))"
    using assms(2) by (simp add: exponential_step_def assms(1) Let_def)
  moreover have "x + (exp (A * dt) - 1) / A * (A * x + B) =
      exp (A * dt) * x + (exp (A * dt) - 1) * (B / A)"
    using assms(2) by (simp add: field_simps)
  ultimately show ?thesis by simp
qed

lemma int_h_gamma_exponential:
  "int_h_gamma (exponential_step dt) (Some x) t (Some V) =
     Some (exp (- (phi * (h_alpha_gamma V + h_beta_gamma V)) * dt) * x +
           (1 - exp (- (phi * (h_alpha_gamma V + h_beta_gamma V)) * dt)) *
             (h_alpha_gamma V / (h_alpha_gamma V + h_beta_gamma V)))"
proof -
  let ?a = "h_alpha_gamma V" and ?b = "h_beta_gamma V"
  let ?A = "- (phi * (?a + ?b))"
  have ab: "0 < ?a + ?b" using beta_dict_pos(5,6)[of V] by (simp add: add_pos_pos)
  have A: "?A \<noteq> 0" using ab by (simp add: phi_def)
  have f: "int_h_rhs_gamma h t V = Some (?A * h + phi * ?a)" for h
  proof -
    have "int_h_rhs_gamma h t V = Some (phi * (?a * (1 - h) - ?b * h))"
      by (simp only: int_h_rhs_gamma_Some h_alpha_gamma_def h_beta_gamma_def)
    moreover have "phi * (?a * (1 - h) - ?b * h) = ?A * h + phi * ?a"
      by (simp add: algebra_simps)
    ultimately show ?thesis by simp
  qed
  have "phi * ?a / ?A = - (?a / (?a + ?b))" using ab by (simp add: phi_def field_simps)
  then have "(exp (?A * dt) - 1) * (phi * ?a / ?A) = (1 - exp (?A * dt)) * (?a / (?a + ?b))"
    by (simp add: algebra_simps)
  then show ?thesis
    using exponential_step_affine[of "\<lambda>h. int_h_rhs_gamma h t V" ?A "phi * ?a", OF f A, of dt x]
    by (simp add: int_h_gamma_def)
qed

lemma convex_unit:
  fixes E x s :: real
  assumes "0 \<le> E" "E \<le> 1" "0 \<le> x" "x \<le> 1" "0 \<le> s" "s \<le> 1"
  shows "0 \<le> E * x + (1 - E) * s" and "E * x + (1 - E) * s \<le> 1"
proof -
  have ex: "0 \<le> E * x" using assms(1,3) by (rule mult_nonneg_nonneg)
  have c: "0 \<le> 1 - E" using assms(2) by simp
  have "0 \<le> (1 - E) * s" using c assms(5) by (rule mult_nonneg_nonneg)
  moreover note ex
  ultimately show "0 \<le> E * x + (1 - E) * s" by simp
  have "E * x \<le> E * 1" using assms(4,1) by (rule mult_left_mono)
  moreover have "(1 - E) * s \<le> (1 - E) * 1" using assms(6) c by (rule mult_left_mono)
  ultimately show "E * x + (1 - E) * s \<le> 1" by simp
qed

lemma int_h_gamma_unit:
  assumes "0 < dt" and "unit_float z"
  shows "unit_float (int_h_gamma (exponential_step dt) z t (Some V))"
proof -
  from assms(2) obtain x where x: "z = Some x" "0 \<le> x" "x \<le> 1"
    by (auto simp: unit_float_def)
  let ?a = "h_alpha_gamma V" and ?b = "h_beta_gamma V"
  have a: "0 < ?a" and b: "0 < ?b" using beta_dict_pos(5,6)[of V] by simp_all
  have s0: "0 \<le> ?a / (?a + ?b)" using a b by (simp add: add_pos_pos)
  have s1: "?a / (?a + ?b) \<le> 1" using a b by (simp add: add_pos_pos)
  have "0 \<le> phi * (?a + ?b) * dt" using a b assms(1) by (simp add: phi_def)
  then have E1: "exp (- (phi * (?a + ?b)) * dt) \<le> 1" by simp
  have E0: "0 \<le> exp (- (phi * (?a + ?b)) * dt)" by simp
  show ?thesis
    unfolding x(1) int_h_gamma_exponential unit_float_def
    using convex_unit[OF E0 E1 x(2,3) s0 s1] by simp
qed

lemma exp_5_gt: "(25::real) < exp 5"
proof -
  have "(2::real) \<le> exp 1" using exp_ge_add_one_self[of "1::real"] by simp
  then have "(2::real) ^ 5 \<le> exp 1 ^ 5" by (rule power_mono) simp
  moreover have "exp (1::real) ^ 5 = exp 5" using exp_of_nat_mult[of 5 "1::real"] by simp
  ultimately show ?thesis by simp
qed

text \<open>
  C4 (amended). For a fixed membrane potential \<open>V\<close> the forward-Euler kernels \<open>int_m\<close>,
  \<open>int_h\<close> and \<open>int_n\<close> of try_dict.py keep a gating variable that starts in \<open>[0, 1]\<close>
  inside \<open>[0, 1]\<close> for any number of steps, provided that \<open>V\<close> is not the singular
  voltage of the kernel (\<open>-40\<close> for \<open>m\<close>, \<open>-55\<close> for \<open>n\<close>) and that the step is small
  enough for the rates at \<open>V\<close>: \<open>(alpha V + beta V) * dt \<le> 1\<close> with \<open>dt = 0.01\<close>. The
  kernel \<open>int_h\<close> of the gamma script, integrated with the exponential scheme, keeps
  \<open>h\<close> in \<open>[0, 1]\<close> for every \<open>V\<close> and every positive step.
\<close>

theorem gating_bounded:
  "(unit_float z \<and> V \<noteq> - 40 \<and> (m_alpha_dict V + m_beta_dict V) * dt_dict \<le> 1 \<longrightarrow>
      unit_float (((\<lambda>m. int_m_dict m t (Some V)) ^^ k) z)) \<and>
   (unit_float z \<and> (h_alpha_dict V + h_beta_dict V) * dt_dict \<le> 1 \<longrightarrow>
      unit_float (((\<lambda>h. int_h_dict h t (Some V)) ^^ k) z)) \<and>
   (unit_float z \<and> V \<noteq> - 55 \<and> (n_alpha_dict V + n_beta_dict V) * dt_dict \<le> 1 \<longrightarrow>
      unit_float (((\<lambda>n. int_n_dict n t (Some V)) ^^ k) z)) \<and>
   (unit_float z \<and> 0 < dt \<longrightarrow>
      unit_float (((\<lambda>h. int_h_gamma (exponential_step dt) h t (Some V)) ^^ k) z))"
proof (intro conjI impI)
  assume "unit_float z \<and> V \<noteq> - 40 \<and> (m_alpha_dict V + m_beta_dict V) * dt_dict \<le> 1"
  then show "unit_float (((\<lambda>m. int_m_dict m t (Some V)) ^^ k) z)"
    by (intro funpow_unit_float int_m_dict_unit) simp_all
next
  assume "unit_float z \<and> (h_alpha_dict V + h_beta_dict V) * dt_dict \<le> 1"
  then show "unit_float (((\<lambda>h. int_h_dict h t (Some V)) ^^ k) z)"
    by (intro funpow_unit_float int_h_dict_unit) simp_all
next
  assume "unit_float z \<and> V \<noteq> - 55 \<and> (n_alpha_dict V + n_beta_dict V) * dt_dict \<le> 1"
  then show "unit_float (((\<lambda>n. int_n_dict n t (Some V)) ^^ k) z)"
    by (intro funpow_unit_float int_n_dict_unit) simp_all
next
  assume "unit_float z \<and> 0 < dt"
  then show "unit_float (((\<lambda>h. int_h_gamma (exponential_step dt) h t (Some V)) ^^ k) z)"
    by (intro funpow_unit_float int_h_gamma_unit) simp_all
qed

theorem gating_unbounded_counterexample:
  "unit_float (Some 1) \<and> \<not> unit_float (int_m_dict (Some 1) 0 (Some (- 155))) \<and>
   (case int_m_dict (Some 1) 0 (Some (- 155)) of Some y \<Rightarrow> y < 0 | None \<Rightarrow> False)"
proof -
  have e: "int_m_dict (Some 1) 0 (Some (- 155)) = Some (1 - 4 * exp 5 * 0.01)"
    using int_m_dict_eq[of "- 155" 1 0] by (simp add: m_beta_dict_def dt_dict_def)
  have "1 - 4 * exp 5 * 0.01 < (0::real)" using exp_5_gt by simp
  then show ?thesis unfolding e by (simp add: unit_float_def)
qed


lemma rates_at_rest:
  "(m_alpha_dict (- 65) + m_beta_dict (- 65)) * dt_dict \<le> 1"
  "(h_alpha_dict (- 65) + h_beta_dict (- 65)) * dt_dict \<le> 1"
  "(n_alpha_dict (- 65) + n_beta_dict (- 65)) * dt_dict \<le> 1"
proof -
  have e1: "(7/2::real) \<le> exp (5/2)" using exp_ge_add_one_self[of "5/2::real"] by simp
  have "m_alpha_dict (- 65) = (5/2) / (exp (5/2) - 1)"
    by (simp add: m_alpha_dict_def field_simps)
  moreover have "(5/2) / (exp (5/2) - 1) \<le> (1::real)" using e1 by (simp add: field_simps)
  ultimately have ma: "m_alpha_dict (- 65) \<le> 1" by simp
  have mb: "m_beta_dict (- 65) = 4" by (simp add: m_beta_dict_def)
  show "(m_alpha_dict (- 65) + m_beta_dict (- 65)) * dt_dict \<le> 1"
    using ma mb by (simp add: dt_dict_def)
  have ha: "h_alpha_dict (- 65) = 0.07" by (simp add: h_alpha_dict_def)
  have p: "(0::real) < 1 + exp 3" by (simp add: add_pos_pos)
  have "1 / (1 + exp (3::real)) \<le> 1" using p by (subst divide_le_eq_1_pos) simp_all
  then have hb: "h_beta_dict (- 65) \<le> 1" by (simp add: h_beta_dict_def)
  show "(h_alpha_dict (- 65) + h_beta_dict (- 65)) * dt_dict \<le> 1"
    using ha hb by (simp add: dt_dict_def)
  have e2: "(2::real) \<le> exp 1" using exp_ge_add_one_self[of "1::real"] by simp
  have "n_alpha_dict (- 65) = (1/10) / (exp 1 - 1)"
    by (simp add: n_alpha_dict_def field_simps)
  moreover have "(1/10) / (exp 1 - 1) \<le> (1::real)" using e2 by (simp add: field_simps)
  ultimately have na: "n_alpha_dict (- 65) \<le> 1" by simp
  have nb: "n_beta_dict (- 65) = 0.125" by (simp add: n_beta_dict_def)
  show "(n_alpha_dict (- 65) + n_beta_dict (- 65)) * dt_dict \<le> 1"
    using na nb by (simp add: dt_dict_def)
qed

theorem gating_bounded_witness:
  "unit_float (Some (1/2)) \<and> (- 65::real) \<noteq> - 40 \<and> (- 65::real) \<noteq> - 55 \<and>
   (m_alpha_dict (- 65) + m_beta_dict (- 65)) * dt_dict \<le> 1 \<and>
   (h_alpha_dict (- 65) + h_beta_dict (- 65)) * dt_dict \<le> 1 \<and>
   (n_alpha_dict (- 65) + n_beta_dict (- 65)) * dt_dict \<le> 1 \<and> 0 < dt_gamma \<and>
   unit_float (((\<lambda>m. int_m_dict m 0 (Some (- 65))) ^^ 3) (Some (1/2))) \<and>
   unit_float (((\<lambda>h. int_h_dict h 0 (Some (- 65))) ^^ 3) (Some (1/2))) \<and>
   unit_float (((\<lambda>n. int_n_dict n 0 (Some (- 65))) ^^ 3) (Some (1/2))) \<and>
   unit_float (((\<lambda>h. int_h_gamma (exponential_step dt_gamma) h 0 (Some (- 65))) ^^ 3)
      (Some (1/2)))"
proof -
  have u: "unit_float (Some (1/2))"
    unfolding unit_float_def by (rule exI[of _ "1/2"]) simp
  have v: "(- 65::real) \<noteq> - 40" "(- 65::real) \<noteq> - 55" by simp_all
  show ?thesis
    using u v rates_at_rest dt_gamma_pos
      gating_bounded[where z = "Some (1/2)" and V = "- 65" and t = 0 and k = 3
        and dt = dt_gamma]
    by blast
qed

lemma int_ge_exponential:
  "int_ge (exponential_step dt) (Some x) t = Some (x * exp (- dt / taue))"
proof -
  have f: "int_ge_rhs y t = Some ((- 1 / taue) * y + 0)" for y
    by (simp add: int_ge_rhs_def)
  have A: "- 1 / taue \<noteq> 0" by (simp add: taue_def)
  show ?thesis
    using exponential_step_affine[of "\<lambda>ge. int_ge_rhs ge t" "- 1 / taue" 0, OF f A, of dt x]
    by (simp add: int_ge_def mult.commute)
qed

lemma int_gi_exponential:
  "int_gi (exponential_step dt) (Some x) t = Some (x * exp (- dt / taui))"
proof -
  have f: "int_gi_rhs y t = Some ((- 1 / taui) * y + 0)" for y
    by (simp add: int_gi_rhs_def)
  have A: "- 1 / taui \<noteq> 0" by (simp add: taui_def)
  show ?thesis
    using exponential_step_affine[of "\<lambda>gi. int_gi_rhs gi t" "- 1 / taui" 0, OF f A, of dt x]
    by (simp add: int_gi_def mult.commute)
qed

lemma int_ge_funpow:
  "((\<lambda>ge. int_ge (exponential_step dt) ge t) ^^ k) (Some x) = Some (x * exp (- dt / taue) ^ k)"
  by (induction k) (simp_all add: int_ge_exponential mult.assoc)

lemma int_gi_funpow:
  "((\<lambda>gi. int_gi (exponential_step dt) gi t) ^^ k) (Some x) = Some (x * exp (- dt / taui) ^ k)"
  by (induction k) (simp_all add: int_gi_exponential mult.assoc)

text \<open>
  C8. With the exponential scheme the conductance kernels \<open>int_ge\<close> and \<open>int_gi\<close>, whose
  right-hand sides are \<open>- ge / taue\<close> and \<open>- gi / taui\<close>, multiply the conductance by
  \<open>exp (- dt / tau)\<close> in every step; after \<open>k\<close> steps without input the conductance is
  \<open>x * exp (- dt / tau) ^ k\<close>, and 1000 steps of \<open>int_ge\<close> from 1 with \<open>taue = 5\<close> and
  \<open>dt = 0.1\<close> end at \<open>exp (-20)\<close>, within \<open>1e-9\<close>. The statement is about real numbers:
  rounding is not modelled.
\<close>

theorem exponential_decay_closed_form:
  "int_ge (exponential_step dt) (Some x) t = Some (x * exp (- dt / taue)) \<and>
   int_gi (exponential_step dt) (Some x) t = Some (x * exp (- dt / taui)) \<and>
   ((\<lambda>ge. int_ge (exponential_step dt) ge t) ^^ k) (Some x) =
      Some (x * exp (- dt / taue) ^ k) \<and>
   ((\<lambda>gi. int_gi (exponential_step dt) gi t) ^^ k) (Some x) =
      Some (x * exp (- dt / taui) ^ k) \<and>
   taue = 5 \<and> dt_cobahh = 0.1 \<and>
   (\<exists>y. ((\<lambda>ge. int_ge (exponential_step dt_cobahh) ge t) ^^ 1000) (Some 1) = Some y \<and>
        \<bar>y - exp (- (1000 * dt_cobahh) / taue)\<bar> \<le> 1 / 10 ^ 9)"
proof -
  have "exp (- dt_cobahh / taue) ^ 1000 = exp (- (1000 * dt_cobahh) / taue)"
    using exp_of_nat_mult[of 1000 "- dt_cobahh / taue"] by simp
  then have "\<exists>y. ((\<lambda>ge. int_ge (exponential_step dt_cobahh) ge t) ^^ 1000) (Some 1) = Some y \<and>
        \<bar>y - exp (- (1000 * dt_cobahh) / taue)\<bar> \<le> 1 / 10 ^ 9"
    unfolding int_ge_funpow by simp
  then show ?thesis
    by (simp only: int_ge_exponential int_gi_exponential int_ge_funpow int_gi_funpow
        taue_def dt_cobahh_def simp_thms)
qed

section \<open>Properties of the GABAa synapse\<close>

lemma assign_at_Inl: "(\<exists>e. assign_at a ids v = Inl e) \<longleftrightarrow> dangling (length a) ids"
  using np_indices_Inl[of "length a" ids]
  by (auto simp: assign_at_def split: sum.splits)

lemma assign_at_Inr:
  assumes "assign_at a ids v = Inr a'"
  shows "length a' = length a"
    and "x < length a \<Longrightarrow> a' ! x = (if x \<in> targets (length a) ids then v else a ! x)"
proof -
  from assms obtain js where js: "np_indices (length a) ids = Inr js"
    and a': "a' = fold (\<lambda>j acc. acc[j := v]) js a"
    by (auto simp: assign_at_def split: sum.splits)
  show "length a' = length a" using a' by (simp add: fold_upd_length)
  show "a' ! x = (if x \<in> targets (length a) ids then v else a ! x)" if "x < length a"
    using that a' np_indices_Inr_set[OF js] by (simp add: fold_upd_nth)
qed

lemma assign_at_total:
  "\<not> dangling (length a) ids \<Longrightarrow> \<exists>a'. assign_at a ids v = Inr a'"
  using assign_at_Inl[of a ids v] by (cases "assign_at a ids v") auto

lemma pre_loop_ok:
  assumes "\<forall>p \<in> set ps. pre_ok pre_V pre2syn (length a) p"
  shows "\<exists>a'. pre_loop pre_V pre2syn ps a = Inr a' \<and> length a' = length a"
  using assms
proof (induction ps arbitrary: a)
  case Nil
  show ?case by simp
next
  case (Cons p ps)
  from Cons.prems have p: "p < length pre_V" "\<not> dangling (length a) (pre2syn ! p)"
    by (simp_all add: pre_ok_def)
  obtain a1 where a1: "assign_at a (pre2syn ! p) (fsub (pre_V ! p) (Some spike_threshold)) = Inr a1"
    using assign_at_total[OF p(2)] by blast
  have l1: "length a1 = length a" by (rule assign_at_Inr(1)[OF a1])
  have "\<forall>q \<in> set ps. pre_ok pre_V pre2syn (length a1) q" using Cons.prems l1 by simp
  from Cons.IH[OF this] obtain a' where "pre_loop pre_V pre2syn ps a1 = Inr a'"
    "length a' = length a1" by blast
  then show ?case using p(1) a1 l1 by simp
qed

lemma pre_loop_untouched:
  assumes "\<forall>p \<in> set ps. pre_ok pre_V pre2syn (length a) p"
    and "\<forall>p \<in> set ps. k \<notin> targets (length a) (pre2syn ! p)"
    and "k < length a" and "pre_loop pre_V pre2syn ps a = Inr a'"
  shows "a' ! k = a ! k"
  using assms
proof (induction ps arbitrary: a)
  case Nil
  then show ?case by simp
next
  case (Cons p ps)
  from Cons.prems(1) have p: "p < length pre_V" "\<not> dangling (length a) (pre2syn ! p)"
    by (simp_all add: pre_ok_def)
  obtain a1 where a1: "assign_at a (pre2syn ! p) (fsub (pre_V ! p) (Some spike_threshold)) = Inr a1"
    using assign_at_total[OF p(2)] by blast
  have l1: "length a1 = length a" by (rule assign_at_Inr(1)[OF a1])
  have v1: "a1 ! k = a ! k"
    using assign_at_Inr(2)[OF a1 Cons.prems(3)] Cons.prems(2) by simp
  have r: "pre_loop pre_V pre2syn ps a1 = Inr a'" using Cons.prems(4) p(1) a1 by simp
  have "a' ! k = a1 ! k"
    using Cons.IH[of a1] Cons.prems(1,2,3) l1 r by simp
  then show ?case using v1 by simp
qed

lemma pre_loop_append:
  "pre_loop pre_V pre2syn (xs @ ys) a =
     (case pre_loop pre_V pre2syn xs a of
        Inl e \<Rightarrow> Inl e
      | Inr a1 \<Rightarrow> pre_loop pre_V pre2syn ys a1)"
  by (induction xs arbitrary: a) (simp_all split: sum.splits)

lemma pre_loop_source:
  assumes ok: "\<forall>q<N. pre_ok pre_V pre2syn (length a) q"
    and p: "p < N" and k: "k < length a" "k \<in> targets (length a) (pre2syn ! p)"
    and later: "\<forall>q. p < q \<and> q < N \<longrightarrow> k \<notin> targets (length a) (pre2syn ! q)"
  shows "\<exists>a'. pre_loop pre_V pre2syn [0..<N] a = Inr a' \<and> length a' = length a \<and>
     a' ! k = fsub (pre_V ! p) (Some spike_threshold)"
proof -
  have split: "[0..<N] = [0..<p] @ p # [Suc p..<N]"
    using p by (metis le0 upt_add_eq_append upt_conv_Cons le_add_diff_inverse less_imp_le_nat
        add.commute less_or_eq_imp_le)
  have ok0: "\<forall>q \<in> set [0..<p]. pre_ok pre_V pre2syn (length a) q" using ok p by simp
  obtain a0 where a0: "pre_loop pre_V pre2syn [0..<p] a = Inr a0" "length a0 = length a"
    using pre_loop_ok[OF ok0] by blast
  have pp: "p < length pre_V" "\<not> dangling (length a0) (pre2syn ! p)"
    using ok p a0(2) by (simp_all add: pre_ok_def)
  obtain a1 where a1: "assign_at a0 (pre2syn ! p) (fsub (pre_V ! p) (Some spike_threshold)) = Inr a1"
    using assign_at_total[OF pp(2)] by blast
  have l1: "length a1 = length a" using assign_at_Inr(1)[OF a1] a0(2) by simp
  have v1: "a1 ! k = fsub (pre_V ! p) (Some spike_threshold)"
    using assign_at_Inr(2)[OF a1, of k] k a0(2) by simp
  have ok2: "\<forall>q \<in> set [Suc p..<N]. pre_ok pre_V pre2syn (length a1) q" using ok l1 by simp
  obtain a2 where a2: "pre_loop pre_V pre2syn [Suc p..<N] a1 = Inr a2" "length a2 = length a1"
    using pre_loop_ok[OF ok2] by blast
  have nt: "\<forall>q \<in> set [Suc p..<N]. k \<notin> targets (length a1) (pre2syn ! q)"
    using later l1 by simp
  have kl: "k < length a1" using k(1) l1 by simp
  have v2: "a2 ! k = a1 ! k" by (rule pre_loop_untouched[OF ok2 nt kl a2(1)])
  have "pre_loop pre_V pre2syn [0..<N] a = Inr a2"
    unfolding split pre_loop_append a0(1) using pp(1) a1 a2(1) by simp
  then show ?thesis using a2(2) l1 v2 v1 by simp
qed


lemma np_indices_nonneg:
  "\<forall>i \<in> set ids. 0 \<le> i \<and> i < int n \<Longrightarrow> np_indices n ids = Inr (map nat ids)"
  by (induction ids) (simp_all add: np_index_def)

lemma np_take_nonneg:
  "\<forall>i \<in> set ids. 0 \<le> i \<and> i < int (length a) \<Longrightarrow>
   np_take a ids = Inr (map (\<lambda>i. a ! nat i) ids)"
  by (simp add: np_take_def np_indices_nonneg comp_def)

lemma post_sums_nonneg:
  "\<forall>ids \<in> set xs. \<forall>i \<in> set ids. 0 \<le> i \<and> i < int (length g) \<Longrightarrow>
   post_sums g xs = Inr (map (\<lambda>ids. np_sum (map (\<lambda>i. g ! nat i) ids)) xs)"
  by (induction xs) (simp_all add: np_take_nonneg)

lemma np_sum_Some_aux:
  "fold (\<lambda>x acc. fadd acc x) (map Some xs) (Some a) = Some (a + sum_list xs)"
  by (induction xs arbitrary: a) (simp_all add: fadd_Some add.assoc)

lemma np_sum_Some: "np_sum (map Some xs) = Some (sum_list xs)"
  using np_sum_Some_aux[of xs 0] by (simp add: np_sum_def)

lemma nan_div_pos: "0 < y \<Longrightarrow> nan_div x y = Some (x / y)"
  by (simp add: nan_div_def)

lemma T_GABAa_Some:
  "T_GABAa (fsub (Some v) (Some theta)) = Some (1 / (1 + exp (- (v - theta) / 2)))"
proof -
  have a: "fsub (Some v) (Some theta) = Some (v - theta)" by (simp add: fsub_def)
  have b: "T_GABAa (Some x) = nan_div 1 (1 + exp (- x / 2))" for x
    by (simp add: T_GABAa_def)
  have c: "0 < 1 + exp (- (v - theta) / 2)" by (simp add: add_pos_pos)
  show ?thesis unfolding a b by (rule nan_div_pos[OF c])
qed

lemma update_GABAa_synapse:
  assumes len: "length (s_s ST) = length (s_pre_above_th ST)"
    and ok: "\<forall>q<length pre2syn. pre_ok pre_V pre2syn (length (s_pre_above_th ST)) q"
    and p: "p < length pre2syn" and k: "k < length (s_pre_above_th ST)"
    and src: "k \<in> targets (length (s_pre_above_th ST)) (pre2syn ! p)"
    and later: "\<forall>q. p < q \<and> q < length pre2syn \<longrightarrow>
                  k \<notin> targets (length (s_pre_above_th ST)) (pre2syn ! q)"
  shows "\<exists>ST'. update_GABAa I ST t pre_V pre2syn = Inr ST' \<and>
       s_pre_above_th ST' ! k = fsub (pre_V ! p) (Some spike_threshold) \<and>
       s_s ST' ! k = int_s I (s_s ST ! k) t (T_GABAa (fsub (pre_V ! p) (Some spike_threshold))) \<and>
       s_g ST' ! k = fmul (Some g_max) (s_s ST' ! k)"
proof -
  from pre_loop_source[OF ok p k src later] obtain a' where
    a': "pre_loop pre_V pre2syn [0..<length pre2syn] (s_pre_above_th ST) = Inr a'"
    "length a' = length (s_pre_above_th ST)"
    "a' ! k = fsub (pre_V ! p) (Some spike_threshold)"
    by blast
  let ?s = "map2 (\<lambda>s TT. int_s I s t TT) (s_s ST) (map T_GABAa a')"
  let ?ST' = "ST\<lparr> s_pre_above_th := a', s_s := ?s, s_g := map (\<lambda>s. fmul (Some g_max) s) ?s \<rparr>"
  have u: "update_GABAa I ST t pre_V pre2syn = Inr ?ST'"
    by (simp add: update_GABAa_def a'(1) Let_def)
  have ks: "k < length (s_s ST)" and ka: "k < length a'" using k len a'(2) by simp_all
  have s: "?s ! k = int_s I (s_s ST ! k) t (T_GABAa (fsub (pre_V ! p) (Some spike_threshold)))"
    using ks ka a'(3) by simp
  have g: "map (\<lambda>s. fmul (Some g_max) s) ?s ! k = fmul (Some g_max) (?s ! k)"
    using ks ka by simp
  show ?thesis
    using u a'(3) s g by simp
qed

lemma output_GABAa_neuron:
  assumes "length post2syn = length post_inp"
    and "\<forall>j<length post2syn. \<forall>i \<in> set (post2syn ! j). 0 \<le> i \<and> i < int (length (s_g ST))"
    and "j < length post_inp"
  shows "\<exists>inp'. output_GABAa ST post_V post_inp post2syn = Inr inp' \<and>
       length inp' = length post_inp \<and>
       inp' ! j = fsub (post_inp ! j)
         (fmul (np_sum (map (\<lambda>i. s_g ST ! nat i) (post2syn ! j)))
               (fsub (post_V ! j) (Some E_GABAa)))"
proof -
  have "\<forall>ids \<in> set post2syn. \<forall>i \<in> set ids. 0 \<le> i \<and> i < int (length (s_g ST))"
    using assms(2) by (metis in_set_conv_nth)
  then have ps: "post_sums (s_g ST) post2syn =
      Inr (map (\<lambda>ids. np_sum (map (\<lambda>i. s_g ST ! nat i) ids)) post2syn)"
    by (rule post_sums_nonneg)
  have j: "j < length post2syn" using assms(1,3) by simp
  show ?thesis
    using assms(3) j by (simp add: output_GABAa_def ps)
qed

text \<open>
  C6. The kinetic synapse. In \<open>update\<close>, for a synapse \<open>k\<close> listed in \<open>pre2syn\<close> under the
  source neuron \<open>p\<close> (and under no later source), \<open>pre_above_th\<close> becomes
  \<open>V_pre[p] - spike_threshold\<close>, the gating state \<open>s\<close> is advanced by the integrator of
  \<open>ds/dt = alpha * T * (1 - s) - beta * s\<close> with the drive
  \<open>T = 1 / (1 + exp (- (V_pre[p] - spike_threshold) / 2))\<close>, and the conductance is set
  to \<open>g = g_max * s\<close>. In \<open>output\<close>, for every postsynaptic neuron \<open>j\<close> the conductances
  of the synapses listed in \<open>post2syn[j]\<close> are summed and the sum times
  \<open>V_post[j] - E\<close> is subtracted from \<open>inp[j]\<close>. Both steps complete without an error
  when the adjacency lists hold valid ids.
\<close>

theorem kinetic_synapse:
  "(length (s_s ST) = length (s_pre_above_th ST) \<and>
    (\<forall>q<length pre2syn. pre_ok pre_V pre2syn (length (s_pre_above_th ST)) q) \<and>
    p < length pre2syn \<and> k < length (s_pre_above_th ST) \<and>
    k \<in> targets (length (s_pre_above_th ST)) (pre2syn ! p) \<and>
    (\<forall>q. p < q \<and> q < length pre2syn \<longrightarrow>
           k \<notin> targets (length (s_pre_above_th ST)) (pre2syn ! q)) \<longrightarrow>
    (\<exists>ST'. update_GABAa I ST t pre_V pre2syn = Inr ST' \<and>
       s_pre_above_th ST' ! k = fsub (pre_V ! p) (Some spike_threshold) \<and>
       s_s ST' ! k =
         int_s I (s_s ST ! k) t (T_GABAa (fsub (pre_V ! p) (Some spike_threshold))) \<and>
       s_g ST' ! k = fmul (Some g_max) (s_s ST' ! k))) \<and>
   T_GABAa (fsub (Some v) (Some theta)) = Some (1 / (1 + exp (- (v - theta) / 2))) \<and>
   int_s I (Some s) t (Some TT) =
     I (\<lambda>s. Some (alpha_GABAa * TT * (1 - s) - beta_GABAa * s)) s \<and>
   (length post2syn = length post_inp \<and>
    (\<forall>j<length post2syn. \<forall>i \<in> set (post2syn ! j). 0 \<le> i \<and> i < int (length (s_g ST))) \<and>
    j < length post_inp \<longrightarrow>
    (\<exists>inp'. output_GABAa ST post_V post_inp post2syn = Inr inp' \<and>
       length inp' = length post_inp \<and>
       inp' ! j = fsub (post_inp ! j)
         (fmul (np_sum (map (\<lambda>i. s_g ST ! nat i) (post2syn ! j)))
               (fsub (post_V ! j) (Some E_GABAa))))) \<and>
   np_sum (map Some xs) = Some (sum_list xs)"
proof (intro conjI impI)
  assume "length (s_s ST) = length (s_pre_above_th ST) \<and>
    (\<forall>q<length pre2syn. pre_ok pre_V pre2syn (length (s_pre_above_th ST)) q) \<and>
    p < length pre2syn \<and> k < length (s_pre_above_th ST) \<and>
    k \<in> targets (length (s_pre_above_th ST)) (pre2syn ! p) \<and>
    (\<forall>q. p < q \<and> q < length pre2syn \<longrightarrow>
           k \<notin> targets (length (s_pre_above_th ST)) (pre2syn ! q))"
  then show "\<exists>ST'. update_GABAa I ST t pre_V pre2syn = Inr ST' \<and>
       s_pre_above_th ST' ! k = fsub (pre_V ! p) (Some spike_threshold) \<and>
       s_s ST' ! k =
         int_s I (s_s ST ! k) t (T_GABAa (fsub (pre_V ! p) (Some spike_threshold))) \<and>
       s_g ST' ! k = fmul (Some g_max) (s_s ST' ! k)"
    using update_GABAa_synapse[of ST pre2syn pre_V p k I t] by blast
next
  show "T_GABAa (fsub (Some v) (Some theta)) = Some (1 / (1 + exp (- (v - theta) / 2)))"
    by (rule T_GABAa_Some)
  show "int_s I (Some s) t (Some TT) =
     I (\<lambda>s. Some (alpha_GABAa * TT * (1 - s) - beta_GABAa * s)) s"
    by (simp add: int_s_def int_s_rhs_def)
  show "np_sum (map Some xs) = Some (sum_list xs)" by (rule np_sum_Some)
next
  assume "length post2syn = length post_inp \<and>
    (\<forall>j<length post2syn. \<forall>i \<in> set (post2syn ! j). 0 \<le> i \<and> i < int (length (s_g ST))) \<and>
    j < length post_inp"
  then show "\<exists>inp'. output_GABAa ST post_V post_inp post2syn = Inr inp' \<and>
       length inp' = length post_inp \<and>
       inp' ! j = fsub (post_inp ! j)
         (fmul (np_sum (map (\<lambda>i. s_g ST ! nat i) (post2syn ! j)))
               (fsub (post_V ! j) (Some E_GABAa)))"
    using output_GABAa_neuron[of post2syn post_inp ST j post_V] by blast
qed

lemma syn_example_hyps:
  "length (s_s syn_example) = length (s_pre_above_th syn_example)"
  "\<forall>q<length [[0], [1::int]].
      pre_ok [Some (- 60), Some 10] [[0], [1]] (length (s_pre_above_th syn_example)) q"
  "(0::nat) < length [[0], [1::int]]" "0 < length (s_pre_above_th syn_example)"
  "0 \<in> targets (length (s_pre_above_th syn_example)) ([[0], [1]] ! 0)"
  "\<forall>q. 0 < q \<and> q < length [[0], [1::int]] \<longrightarrow>
        0 \<notin> targets (length (s_pre_above_th syn_example)) ([[0], [1]] ! q)"
  "length [[1], [0::int]] = length [Some (0::real), Some 0]"
  "\<forall>j<length [[1], [0::int]]. \<forall>i \<in> set ([[1], [0]] ! j).
      0 \<le> i \<and> i < int (length (s_g syn_example))"
  "(1::nat) < length [Some (0::real), Some 0]"
  by (auto simp: syn_example_def pre_ok_def dangling_def targets_def np_index_def
      less_Suc_eq nth_Cons split: nat.splits)

theorem kinetic_synapse_witness:
  "(length (s_s syn_example) = length (s_pre_above_th syn_example) \<and>
    (0::nat) < length [[0], [1::int]] \<and> 0 < length (s_pre_above_th syn_example) \<and>
    0 \<in> targets (length (s_pre_above_th syn_example)) ([[0], [1]] ! 0)) \<and>
   (length [[1], [0::int]] = length [Some (0::real), Some 0] \<and>
    (1::nat) < length [Some (0::real), Some 0]) \<and>
   (\<exists>ST'. update_GABAa (exponential_step dt_gamma) syn_example 0 [Some (- 60), Some 10]
             [[0], [1]] = Inr ST' \<and>
       s_pre_above_th ST' ! 0 = fsub ([Some (- 60), Some 10] ! 0) (Some spike_threshold) \<and>
       s_g ST' ! 0 = fmul (Some g_max) (s_s ST' ! 0)) \<and>
   (\<exists>inp'. output_GABAa syn_example [Some (- 60), Some 10] [Some 0, Some 0] [[1], [0]] = Inr inp' \<and>
       length inp' = length [Some (0::real), Some 0] \<and>
       inp' ! 1 = fsub ([Some 0, Some 0] ! 1)
         (fmul (np_sum (map (\<lambda>i. s_g syn_example ! nat i) ([[1], [0]] ! 1)))
               (fsub ([Some (- 60), Some 10] ! 1) (Some E_GABAa))))"
proof -
  note h = syn_example_hyps
  have u: "\<exists>ST'. update_GABAa (exponential_step dt_gamma) syn_example 0 [Some (- 60), Some 10]
             [[0], [1]] = Inr ST' \<and>
       s_pre_above_th ST' ! 0 = fsub ([Some (- 60), Some 10] ! 0) (Some spike_threshold) \<and>
       s_s ST' ! 0 =
         int_s (exponential_step dt_gamma) (s_s syn_example ! 0) 0
           (T_GABAa (fsub ([Some (- 60), Some 10] ! 0) (Some spike_threshold))) \<and>
       s_g ST' ! 0 = fmul (Some g_max) (s_s ST' ! 0)"
    using h(1-6) kinetic_synapse[where ST = syn_example and pre2syn = "[[0], [1]]"
        and pre_V = "[Some (- 60), Some 10]" and p = 0 and k = 0
        and I = "exponential_step dt_gamma" and t = 0]
    by blast
  have o: "\<exists>inp'. output_GABAa syn_example [Some (- 60), Some 10] [Some 0, Some 0] [[1], [0]] = Inr inp' \<and>
       length inp' = length [Some (0::real), Some 0] \<and>
       inp' ! 1 = fsub ([Some 0, Some 0] ! 1)
         (fmul (np_sum (map (\<lambda>i. s_g syn_example ! nat i) ([[1], [0]] ! 1)))
               (fsub ([Some (- 60), Some 10] ! 1) (Some E_GABAa)))"
    using h(7-9) kinetic_synapse[where ST = syn_example and post2syn = "[[1], [0]]"
        and post_inp = "[Some 0, Some 0]" and post_V = "[Some (- 60), Some 10]" and j = 1]
    by blast
  show ?thesis using h(1,3,4,5,7,9) u o by blast
qed

section \<open>Properties of the dictionary model\<close>

subsection \<open>judge_spike\<close>

lemma judge_spike_frame_fields:
  "d_V (snd (judge_spike st vth t)) = d_V st"
  "d_m (snd (judge_spike st vth t)) = d_m st"
  "d_h (snd (judge_spike st vth t)) = d_h st"
  "d_n (snd (judge_spike st vth t)) = d_n st"
  "d_Isyn (snd (judge_spike st vth t)) = d_Isyn st"
  "d_not_ref (snd (judge_spike st vth t)) = d_not_ref st"
  by (simp_all add: judge_spike_def Let_def)

lemma judge_spike_above_th:
  "d_above_th (snd (judge_spike st vth t)) = map (\<lambda>v. of_bool_float (fge v vth)) (d_V st)"
  by (simp add: judge_spike_def Let_def)

lemma judge_spike_spike:
  "d_spike (snd (judge_spike st vth t)) =
     map2 (\<lambda>a p. fmul a (fsub (Some 1) p))
       (map (\<lambda>v. of_bool_float (fge v vth)) (d_V st)) (d_above_th st)"
  by (simp add: judge_spike_def Let_def)

lemma judge_spike_spike_length:
  "length (d_above_th st) = length (d_V st) \<Longrightarrow>
   length (d_spike (snd (judge_spike st vth t))) = length (d_V st)"
  by (simp add: judge_spike_spike)

lemma judge_spike_spike_nth:
  "length (d_above_th st) = length (d_V st) \<Longrightarrow> i < length (d_V st) \<Longrightarrow>
   d_spike (snd (judge_spike st vth t)) ! i =
     fmul (of_bool_float (fge (d_V st ! i) vth)) (fsub (Some 1) (d_above_th st ! i))"
  by (simp add: judge_spike_spike)

lemma judge_spike_idx:
  "fst (judge_spike st vth t) =
     filter (\<lambda>i. fgt (d_spike (snd (judge_spike st vth t)) ! i) 0)
       [0..<length (d_spike (snd (judge_spike st vth t)))]"
  by (simp add: judge_spike_def Let_def)

lemma judge_spike_spike_time:
  "d_spike_time (snd (judge_spike st vth t)) =
     fold (\<lambda>i a. a[i := Some t]) (fst (judge_spike st vth t)) (d_spike_time st)"
  by (simp add: judge_spike_def Let_def)

lemma judge_spike_spike_time_length:
  "length (d_spike_time (snd (judge_spike st vth t))) = length (d_spike_time st)"
  unfolding judge_spike_spike_time by (rule fold_upd_length)

lemma judge_spike_spike_time_nth:
  assumes "length (d_above_th st) = length (d_V st)"
    and "length (d_spike_time st) = length (d_V st)" and "i < length (d_V st)"
  shows "d_spike_time (snd (judge_spike st vth t)) ! i =
     (if spiked (snd (judge_spike st vth t)) i then Some t else d_spike_time st ! i)"
proof -
  have i: "i < length (d_spike_time st)" using assms by simp
  have m: "i \<in> set (fst (judge_spike st vth t)) \<longleftrightarrow> spiked (snd (judge_spike st vth t)) i"
    unfolding judge_spike_idx[of st vth t] spiked_def
    using assms(3) judge_spike_spike_length[OF assms(1), of vth t] by simp
  show ?thesis
    unfolding judge_spike_spike_time using fold_upd_nth[OF i, of "\<lambda>_. Some t"] m by simp
qed

subsection \<open>neu_update_state\<close>

lemma neu_update_state_pre_judge:
  "neu_update_state st t = snd (judge_spike (pre_judge st t) Vth_dict t)"
  by (simp add: neu_update_state_def pre_judge_def Let_def)

lemma pre_judge_fields:
  "d_m (pre_judge st t) = map2 (\<lambda>m V. int_m_dict m t V) (d_m st) (d_V st)"
  "d_h (pre_judge st t) = map2 (\<lambda>h V. int_h_dict h t V) (d_h st) (d_V st)"
  "d_n (pre_judge st t) = map2 (\<lambda>n V. int_n_dict n t V) (d_n st) (d_V st)"
  "d_Isyn (pre_judge st t) = map (\<lambda>_. Some 0) (d_Isyn st)"
  "d_above_th (pre_judge st t) = d_above_th st"
  "d_spike_time (pre_judge st t) = d_spike_time st"
  "d_not_ref (pre_judge st t) = d_not_ref st"
  "length (d_V (pre_judge st t)) = length (d_V st)"
  by (simp_all add: pre_judge_def Let_def)

lemma pre_judge_V_nth:
  "i < length (d_V st) \<Longrightarrow>
   d_V (pre_judge st t) ! i =
     V_step_dict (d_V st ! i) (d_m (pre_judge st t) ! i) (d_h (pre_judge st t) ! i)
       (d_n (pre_judge st t) ! i) (d_Isyn st ! i)"
  by (simp add: pre_judge_def Let_def)

lemma neu_update_state_wf:
  assumes "wf_dict st"
  shows "wf_dict (neu_update_state st t)" and "length (d_V (neu_update_state st t)) = length (d_V st)"
proof -
  have a: "length (d_above_th (pre_judge st t)) = length (d_V (pre_judge st t))"
    using assms by (simp add: pre_judge_fields wf_dict_def)
  show "length (d_V (neu_update_state st t)) = length (d_V st)"
    by (simp add: neu_update_state_pre_judge judge_spike_frame_fields pre_judge_fields)
  show "wf_dict (neu_update_state st t)"
    using assms judge_spike_spike_length[OF a, of Vth_dict t]
    by (simp add: wf_dict_def neu_update_state_pre_judge judge_spike_frame_fields
        pre_judge_fields judge_spike_above_th judge_spike_spike_time_length)
qed

lemma neu_update_state_gates:
  assumes "wf_dict st" and "i < length (d_V st)"
  shows "d_m (neu_update_state st t) ! i = int_m_dict (d_m st ! i) t (d_V st ! i)"
    and "d_h (neu_update_state st t) ! i = int_h_dict (d_h st ! i) t (d_V st ! i)"
    and "d_n (neu_update_state st t) ! i = int_n_dict (d_n st ! i) t (d_V st ! i)"
  using assms
  by (simp_all add: neu_update_state_pre_judge judge_spike_frame_fields pre_judge_fields
      wf_dict_def)

lemma neu_update_state_V:
  assumes "i < length (d_V st)"
  shows "d_V (neu_update_state st t) ! i =
     V_step_dict (d_V st ! i) (d_m (neu_update_state st t) ! i)
       (d_h (neu_update_state st t) ! i) (d_n (neu_update_state st t) ! i) (d_Isyn st ! i)"
  using pre_judge_V_nth[OF assms, of t]
  by (simp add: neu_update_state_pre_judge judge_spike_frame_fields)

lemma neu_update_state_Isyn:
  "d_Isyn (neu_update_state st t) = replicate (length (d_Isyn st)) (Some 0)"
  by (simp add: neu_update_state_pre_judge judge_spike_frame_fields pre_judge_fields
      map_replicate_const)

lemma neu_update_state_spike:
  assumes "wf_dict st" and "i < length (d_V st)"
  shows "d_spike (neu_update_state st t) ! i =
     fmul (of_bool_float (fge (d_V (neu_update_state st t) ! i) Vth_dict))
          (fsub (Some 1) (d_above_th st ! i))"
proof -
  have a: "length (d_above_th (pre_judge st t)) = length (d_V (pre_judge st t))"
    using assms by (simp add: pre_judge_fields wf_dict_def)
  have i: "i < length (d_V (pre_judge st t))" using assms by (simp add: pre_judge_fields)
  show ?thesis
    using judge_spike_spike_nth[OF a i, of Vth_dict t]
    by (simp add: neu_update_state_pre_judge judge_spike_frame_fields pre_judge_fields)
qed

lemma neu_update_state_above_th:
  assumes "i < length (d_V st)"
  shows "d_above_th (neu_update_state st t) ! i =
     of_bool_float (fge (d_V (neu_update_state st t) ! i) Vth_dict)"
  using assms
  by (simp add: neu_update_state_pre_judge judge_spike_frame_fields judge_spike_above_th
      pre_judge_fields)

lemma neu_update_state_spike_time:
  assumes "wf_dict st" and "i < length (d_V st)"
  shows "d_spike_time (neu_update_state st t) ! i =
     (if spiked (neu_update_state st t) i then Some t else d_spike_time st ! i)"
proof -
  have a: "length (d_above_th (pre_judge st t)) = length (d_V (pre_judge st t))"
    and b: "length (d_spike_time (pre_judge st t)) = length (d_V (pre_judge st t))"
    using assms by (simp_all add: pre_judge_fields wf_dict_def)
  have i: "i < length (d_V (pre_judge st t))" using assms by (simp add: pre_judge_fields)
  show ?thesis
    using judge_spike_spike_time_nth[OF a b i, of Vth_dict t]
    by (simp add: neu_update_state_pre_judge pre_judge_fields)
qed

lemma neu_update_state_flag_inv: "flag_inv (neu_update_state st t)"
  unfolding flag_inv_def
proof (intro allI impI)
  fix i assume "i < length (d_V (neu_update_state st t))"
  then have "i < length (d_V st)"
    by (simp add: neu_update_state_pre_judge judge_spike_frame_fields pre_judge_fields)
  then show "d_above_th (neu_update_state st t) ! i =
     of_bool_float (fge (d_V (neu_update_state st t) ! i) Vth_dict)"
    by (rule neu_update_state_above_th)
qed

lemma V_step_dict_None: "V_step_dict None m h n Isyn = None"
  by (simp add: V_step_dict_def)

lemma spike_is_crossing:
  assumes "wf_dict st" and "flag_inv st" and "i < length (d_V st)"
  shows "d_spike (neu_update_state st t) ! i =
     crossing (d_V st ! i) (d_V (neu_update_state st t) ! i) Vth_dict"
proof (cases "d_V st ! i")
  case None
  then have "d_V (neu_update_state st t) ! i = None"
    using neu_update_state_V[OF assms(3), of t] by (simp add: V_step_dict_None)
  moreover have "d_above_th st ! i = of_bool_float False"
    using assms(2,3) None by (simp add: flag_inv_def fge_def)
  ultimately show ?thesis
    using None neu_update_state_spike[OF assms(1,3), of t]
    by (simp add: crossing_def flt_def fge_def of_bool_float_def fmul_def fsub_def)
next
  case (Some a)
  then have "d_above_th st ! i = of_bool_float (Vth_dict \<le> a)"
    using assms(2,3) by (simp add: flag_inv_def fge_def)
  then show ?thesis
    using Some neu_update_state_spike[OF assms(1,3), of t]
    by (auto simp: crossing_def flt_def fge_def of_bool_float_def fmul_def fsub_def)
qed

lemma dict_init_wf: "wf_dict (dict_for_neuron_state num)"
  by (simp add: wf_dict_def dict_for_neuron_state_def)

lemma dict_init_flag_inv: "flag_inv (dict_for_neuron_state num)"
  by (simp add: flag_inv_def dict_for_neuron_state_def of_bool_float_def fge_def
      Vr_dict_def Vth_dict_def)

lemma run_dict_snoc: "run_dict d (ts @ [t]) = neu_update_state (run_dict d ts) t"
  by (simp add: run_dict_def)

lemma run_dict_wf:
  "wf_dict d \<Longrightarrow> wf_dict (run_dict d ts) \<and> length (d_V (run_dict d ts)) = length (d_V d)"
proof (induction ts rule: rev_induct)
  case Nil
  then show ?case by (simp add: run_dict_def)
next
  case (snoc t ts)
  then show ?case using neu_update_state_wf[of "run_dict d ts" t] by (simp add: run_dict_snoc)
qed

lemma run_dict_flag_inv: "flag_inv d \<Longrightarrow> flag_inv (run_dict d ts)"
proof (induction ts rule: rev_induct)
  case Nil
  then show ?case by (simp add: run_dict_def)
next
  case (snoc t ts)
  show ?case by (simp add: run_dict_snoc neu_update_state_flag_inv)
qed

section \<open>Order of evaluation, spike detection and the input accumulator\<close>

lemma examples_wf:
  "wf_cobahh cobahh_example" "length (c_V cobahh_example) = 1"
  "wf_hh hh_example" "length (g_V hh_example) = 1"
  "length (d_V (dict_for_neuron_state num)) = num"
  by (simp_all add: wf_cobahh_def cobahh_example_def wf_hh_def hh_example_def
      dict_for_neuron_state_def)

text \<open>
  C1 (amended). In \<open>neu_update\<close> of the COBAHH script and in \<open>neu_update_state\<close> of
  try_dict.py the gating variables \<open>m\<close>, \<open>h\<close>, \<open>n\<close> of every neuron are advanced with
  the membrane potential of the previous step, and \<open>V\<close> is then advanced with the newly
  computed gating variables. In \<open>update\<close> of the gamma-oscillation script \<open>h\<close> and \<open>n\<close>
  are advanced with the potential of the previous step as well, but \<open>V\<close> is advanced with
  the values \<open>ST['h']\<close>, \<open>ST['n']\<close> of the previous step: the new values are kept in local
  variables and stored after the voltage kernel has run. This holds for every one-step
  scheme \<open>I\<close>.
\<close>

theorem update_order_of_evaluation:
  "(wf_cobahh cST \<and> i < length (c_V cST) \<longrightarrow>
      c_m (neu_update I cST t) ! i = int_m I (c_m cST ! i) t (c_V cST ! i) \<and>
      c_h (neu_update I cST t) ! i = int_h I (c_h cST ! i) t (c_V cST ! i) \<and>
      c_n (neu_update I cST t) ! i = int_n I (c_n cST ! i) t (c_V cST ! i) \<and>
      c_V (neu_update I cST t) ! i =
        int_V I (c_V cST ! i) t (c_m (neu_update I cST t) ! i) (c_h (neu_update I cST t) ! i)
          (c_n (neu_update I cST t) ! i) (c_ge (neu_update I cST t) ! i)
          (c_gi (neu_update I cST t) ! i)) \<and>
   (wf_dict d \<and> i < length (d_V d) \<longrightarrow>
      d_m (neu_update_state d t) ! i = int_m_dict (d_m d ! i) t (d_V d ! i) \<and>
      d_h (neu_update_state d t) ! i = int_h_dict (d_h d ! i) t (d_V d ! i) \<and>
      d_n (neu_update_state d t) ! i = int_n_dict (d_n d ! i) t (d_V d ! i) \<and>
      d_V (neu_update_state d t) ! i =
        V_step_dict (d_V d ! i) (d_m (neu_update_state d t) ! i)
          (d_h (neu_update_state d t) ! i) (d_n (neu_update_state d t) ! i) (d_Isyn d ! i)) \<and>
   (wf_hh gST \<and> i < length (g_V gST) \<longrightarrow>
      g_h (update_HH I gST t) ! i = int_h_gamma I (g_h gST ! i) t (g_V gST ! i) \<and>
      g_n (update_HH I gST t) ! i = int_n_gamma I (g_n gST ! i) t (g_V gST ! i) \<and>
      g_V (update_HH I gST t) ! i =
        int_V_gamma I (g_V gST ! i) t (g_h gST ! i) (g_n gST ! i) (g_inp gST ! i))"
proof (intro conjI impI)
  assume a: "wf_cobahh cST \<and> i < length (c_V cST)"
  then show "c_m (neu_update I cST t) ! i = int_m I (c_m cST ! i) t (c_V cST ! i)"
    by (simp add: neu_update_fields)
  from a show "c_h (neu_update I cST t) ! i = int_h I (c_h cST ! i) t (c_V cST ! i)"
    by (simp add: neu_update_fields)
  from a show "c_n (neu_update I cST t) ! i = int_n I (c_n cST ! i) t (c_V cST ! i)"
    by (simp add: neu_update_fields)
  from a show "c_V (neu_update I cST t) ! i =
        int_V I (c_V cST ! i) t (c_m (neu_update I cST t) ! i) (c_h (neu_update I cST t) ! i)
          (c_n (neu_update I cST t) ! i) (c_ge (neu_update I cST t) ! i)
          (c_gi (neu_update I cST t) ! i)"
    using neu_update_V[of i cST I t] by simp
next
  assume a: "wf_dict d \<and> i < length (d_V d)"
  then show "d_m (neu_update_state d t) ! i = int_m_dict (d_m d ! i) t (d_V d ! i)"
    by (simp add: neu_update_state_gates)
  from a show "d_h (neu_update_state d t) ! i = int_h_dict (d_h d ! i) t (d_V d ! i)"
    by (simp add: neu_update_state_gates)
  from a show "d_n (neu_update_state d t) ! i = int_n_dict (d_n d ! i) t (d_V d ! i)"
    by (simp add: neu_update_state_gates)
  from a show "d_V (neu_update_state d t) ! i =
        V_step_dict (d_V d ! i) (d_m (neu_update_state d t) ! i)
          (d_h (neu_update_state d t) ! i) (d_n (neu_update_state d t) ! i) (d_Isyn d ! i)"
    using neu_update_state_V[of i d t] by simp
next
  assume a: "wf_hh gST \<and> i < length (g_V gST)"
  then show "g_h (update_HH I gST t) ! i = int_h_gamma I (g_h gST ! i) t (g_V gST ! i)"
    by (simp add: update_HH_fields)
  from a show "g_n (update_HH I gST t) ! i = int_n_gamma I (g_n gST ! i) t (g_V gST ! i)"
    by (simp add: update_HH_fields)
  from a show "g_V (update_HH I gST t) ! i =
        int_V_gamma I (g_V gST ! i) t (g_h gST ! i) (g_n gST ! i) (g_inp gST ! i)"
    using update_HH_V[of i gST I t] by simp
qed

theorem update_order_of_evaluation_witness:
  "(wf_cobahh cobahh_example \<and> 0 < length (c_V cobahh_example)) \<and>
   (wf_dict (dict_for_neuron_state 1) \<and> 0 < length (d_V (dict_for_neuron_state 1))) \<and>
   (wf_hh hh_example \<and> 0 < length (g_V hh_example)) \<and>
   c_V (neu_update (exponential_step dt_cobahh) cobahh_example 0) ! 0 =
     int_V (exponential_step dt_cobahh) (c_V cobahh_example ! 0) 0
       (c_m (neu_update (exponential_step dt_cobahh) cobahh_example 0) ! 0)
       (c_h (neu_update (exponential_step dt_cobahh) cobahh_example 0) ! 0)
       (c_n (neu_update (exponential_step dt_cobahh) cobahh_example 0) ! 0)
       (c_ge (neu_update (exponential_step dt_cobahh) cobahh_example 0) ! 0)
       (c_gi (neu_update (exponential_step dt_cobahh) cobahh_example 0) ! 0) \<and>
   d_V (neu_update_state (dict_for_neuron_state 1) 0) ! 0 =
     V_step_dict (d_V (dict_for_neuron_state 1) ! 0)
       (d_m (neu_update_state (dict_for_neuron_state 1) 0) ! 0)
       (d_h (neu_update_state (dict_for_neuron_state 1) 0) ! 0)
       (d_n (neu_update_state (dict_for_neuron_state 1) 0) ! 0)
       (d_Isyn (dict_for_neuron_state 1) ! 0) \<and>
   g_V (update_HH (exponential_step dt_gamma) hh_example 0) ! 0 =
     int_V_gamma (exponential_step dt_gamma) (g_V hh_example ! 0) 0 (g_h hh_example ! 0)
       (g_n hh_example ! 0) (g_inp hh_example ! 0)"
proof -
  have c: "wf_cobahh cobahh_example \<and> 0 < length (c_V cobahh_example)"
    by (simp add: examples_wf)
  have d: "wf_dict (dict_for_neuron_state 1) \<and> 0 < length (d_V (dict_for_neuron_state 1))"
    by (simp add: examples_wf dict_init_wf)
  have g: "wf_hh hh_example \<and> 0 < length (g_V hh_example)"
    by (simp add: examples_wf)
  show ?thesis
    using c d g
      update_order_of_evaluation[of cobahh_example 0 "exponential_step dt_cobahh" 0
        "dict_for_neuron_state 1" hh_example]
      update_order_of_evaluation[of cobahh_example 0 "exponential_step dt_gamma" 0
        "dict_for_neuron_state 1" hh_example]
    by blast
qed

text \<open>
  C3. The spike indicator of every neuron is 1 exactly when the membrane potential was
  below the threshold before the step and is at or above it after the step, and 0
  otherwise: \<open>spike = (V_prev < theta) AND (V_curr >= theta)\<close>, so that reaching the
  threshold exactly counts. This is what \<open>neu_update\<close> (threshold \<open>Vt\<close>) and the neuron
  \<open>update\<close> of the gamma script (threshold \<open>spike_threshold\<close>) compute directly, and
  what \<open>judge_spike\<close> computes inside \<open>neu_update_state\<close> from the persistent flag
  \<open>above_th\<close>: in every state in which the flag agrees with the potential, in particular
  in every state the run reaches from \<open>dict_for_neuron_state num\<close>, the entry of \<open>spike\<close>
  after the step is that same crossing test with threshold \<open>Vth\<close>, and the flag agrees
  with the potential again.
\<close>

theorem spike_is_rising_edge:
  "(i < length (c_V cST) \<longrightarrow>
      c_sp (neu_update I cST t) ! i =
        of_bool_float (flt (c_V cST ! i) Vt \<and> fge (c_V (neu_update I cST t) ! i) Vt)) \<and>
   (i < length (g_V gST) \<longrightarrow>
      g_sp (update_HH I gST t) ! i =
        of_bool_float (flt (g_V gST ! i) spike_threshold \<and>
                       fge (g_V (update_HH I gST t) ! i) spike_threshold)) \<and>
   (wf_dict d \<and> flag_inv d \<and> i < length (d_V d) \<longrightarrow>
      d_spike (neu_update_state d t) ! i =
        of_bool_float (flt (d_V d ! i) Vth_dict \<and> fge (d_V (neu_update_state d t) ! i) Vth_dict) \<and>
      flag_inv (neu_update_state d t)) \<and>
   (i < num \<longrightarrow>
      d_spike (neu_update_state (run_dict (dict_for_neuron_state num) ts) t) ! i =
        of_bool_float
          (flt (d_V (run_dict (dict_for_neuron_state num) ts) ! i) Vth_dict \<and>
           fge (d_V (neu_update_state (run_dict (dict_for_neuron_state num) ts) t) ! i)
             Vth_dict)) \<and>
   (x < theta \<longrightarrow> crossing (Some x) (Some theta) theta = Some 1)"
proof (intro conjI impI)
  assume "i < length (c_V cST)"
  then show "c_sp (neu_update I cST t) ! i =
        of_bool_float (flt (c_V cST ! i) Vt \<and> fge (c_V (neu_update I cST t) ! i) Vt)"
    using neu_update_sp[of i cST I t] by (simp add: crossing_def)
next
  assume "i < length (g_V gST)"
  then show "g_sp (update_HH I gST t) ! i =
        of_bool_float (flt (g_V gST ! i) spike_threshold \<and>
                       fge (g_V (update_HH I gST t) ! i) spike_threshold)"
    using update_HH_sp[of i gST I t] by (simp add: crossing_def)
next
  assume a: "wf_dict d \<and> flag_inv d \<and> i < length (d_V d)"
  then show "d_spike (neu_update_state d t) ! i =
        of_bool_float (flt (d_V d ! i) Vth_dict \<and> fge (d_V (neu_update_state d t) ! i) Vth_dict)"
    using spike_is_crossing[of d i t] by (simp add: crossing_def)
  show "flag_inv (neu_update_state d t)" by (rule neu_update_state_flag_inv)
next
  assume i: "i < num"
  let ?st = "run_dict (dict_for_neuron_state num) ts"
  have wf: "wf_dict ?st" and len: "length (d_V ?st) = num"
    using run_dict_wf[OF dict_init_wf, of num ts] by (simp_all add: examples_wf)
  have inv: "flag_inv ?st" by (rule run_dict_flag_inv[OF dict_init_flag_inv])
  show "d_spike (neu_update_state ?st t) ! i =
        of_bool_float (flt (d_V ?st ! i) Vth_dict \<and> fge (d_V (neu_update_state ?st t) ! i) Vth_dict)"
    using spike_is_crossing[OF wf inv, of i t] i len by (simp add: crossing_def)
next
  assume "x < theta"
  then show "crossing (Some x) (Some theta) theta = Some 1"
    by (simp add: crossing_def flt_def fge_def of_bool_float_def)
qed

theorem spike_is_rising_edge_witness:
  "0 < length (c_V cobahh_example) \<and> 0 < length (g_V hh_example) \<and>
   (wf_dict (dict_for_neuron_state 1) \<and> flag_inv (dict_for_neuron_state 1) \<and>
      0 < length (d_V (dict_for_neuron_state 1))) \<and>
   (0::nat) < 1 \<and> (19::real) < 20 \<and>
   c_sp (neu_update (exponential_step dt_cobahh) cobahh_example 0) ! 0 =
     of_bool_float (flt (c_V cobahh_example ! 0) Vt \<and>
       fge (c_V (neu_update (exponential_step dt_cobahh) cobahh_example 0) ! 0) Vt) \<and>
   d_spike (neu_update_state (run_dict (dict_for_neuron_state 1) [0, 0.01]) 0.02) ! 0 =
     of_bool_float
       (flt (d_V (run_dict (dict_for_neuron_state 1) [0, 0.01]) ! 0) Vth_dict \<and>
        fge (d_V (neu_update_state (run_dict (dict_for_neuron_state 1) [0, 0.01]) 0.02) ! 0)
          Vth_dict) \<and>
   flag_inv (neu_update_state (dict_for_neuron_state 1) 0) \<and>
   crossing (Some 19) (Some 20) 20 = Some 1"
proof -
  have c: "0 < length (c_V cobahh_example)" and g: "0 < length (g_V hh_example)"
    by (simp_all add: examples_wf)
  have d: "wf_dict (dict_for_neuron_state 1) \<and> flag_inv (dict_for_neuron_state 1) \<and>
      0 < length (d_V (dict_for_neuron_state 1))"
    by (simp add: examples_wf dict_init_wf dict_init_flag_inv)
  have n: "(0::nat) < 1" and x: "(19::real) < 20" by simp_all
  show ?thesis
    using c g d n x
      spike_is_rising_edge[of 0 cobahh_example "exponential_step dt_cobahh" 0 hh_example
        "dict_for_neuron_state 1" 1 "[0, 0.01]" 19 20]
      spike_is_rising_edge[of 0 cobahh_example "exponential_step dt_cobahh" "0.02" hh_example
        "dict_for_neuron_state 1" 1 "[0, 0.01]" 19 20]
    by simp
qed

text \<open>
  C9. After every neuron update the input accumulator of every neuron is zero
  (\<open>Isyn\<close> in try_dict.py, \<open>inp\<close> in the gamma script). The voltage kernel of a step
  reads the accumulator as it was before the step and the update clears it afterwards:
  what was added before a step enters the potential in that step, and a second step
  with nothing added in between integrates the potential with input zero.
\<close>

theorem input_accumulator_cleared:
  "d_Isyn (neu_update_state d t) = replicate (length (d_Isyn d)) (Some 0) \<and>
   g_inp (update_HH I gST t) = replicate (length (g_inp gST)) (Some 0) \<and>
   (wf_dict d \<and> i < length (d_V d) \<longrightarrow>
      d_V (neu_update_state d t) ! i =
        V_step_dict (d_V d ! i) (d_m (neu_update_state d t) ! i)
          (d_h (neu_update_state d t) ! i) (d_n (neu_update_state d t) ! i) (d_Isyn d ! i) \<and>
      d_V (neu_update_state (neu_update_state d t) t') ! i =
        V_step_dict (d_V (neu_update_state d t) ! i)
          (d_m (neu_update_state (neu_update_state d t) t') ! i)
          (d_h (neu_update_state (neu_update_state d t) t') ! i)
          (d_n (neu_update_state (neu_update_state d t) t') ! i) (Some 0)) \<and>
   (wf_hh gST \<and> i < length (g_V gST) \<longrightarrow>
      g_V (update_HH I gST t) ! i =
        int_V_gamma I (g_V gST ! i) t (g_h gST ! i) (g_n gST ! i) (g_inp gST ! i) \<and>
      g_V (update_HH I (update_HH I gST t) t') ! i =
        int_V_gamma I (g_V (update_HH I gST t) ! i) t' (g_h (update_HH I gST t) ! i)
          (g_n (update_HH I gST t) ! i) (Some 0))"
proof (intro conjI impI)
  show "d_Isyn (neu_update_state d t) = replicate (length (d_Isyn d)) (Some 0)"
    by (rule neu_update_state_Isyn)
  show "g_inp (update_HH I gST t) = replicate (length (g_inp gST)) (Some 0)"
    by (rule update_HH_inp)
next
  assume a: "wf_dict d \<and> i < length (d_V d)"
  then show "d_V (neu_update_state d t) ! i =
        V_step_dict (d_V d ! i) (d_m (neu_update_state d t) ! i)
          (d_h (neu_update_state d t) ! i) (d_n (neu_update_state d t) ! i) (d_Isyn d ! i)"
    using neu_update_state_V[of i d t] by simp
  have i1: "i < length (d_V (neu_update_state d t))"
    using a neu_update_state_wf(2)[of d t] by simp
  have "i < length (d_Isyn d)" using a by (simp add: wf_dict_def)
  then have "d_Isyn (neu_update_state d t) ! i = Some 0"
    by (simp add: neu_update_state_Isyn)
  then show "d_V (neu_update_state (neu_update_state d t) t') ! i =
        V_step_dict (d_V (neu_update_state d t) ! i)
          (d_m (neu_update_state (neu_update_state d t) t') ! i)
          (d_h (neu_update_state (neu_update_state d t) t') ! i)
          (d_n (neu_update_state (neu_update_state d t) t') ! i) (Some 0)"
    using neu_update_state_V[OF i1, of t'] by simp
next
  assume a: "wf_hh gST \<and> i < length (g_V gST)"
  then show "g_V (update_HH I gST t) ! i =
        int_V_gamma I (g_V gST ! i) t (g_h gST ! i) (g_n gST ! i) (g_inp gST ! i)"
    using update_HH_V[of i gST I t] by simp
  have i1: "i < length (g_V (update_HH I gST t))"
    using a by (simp add: update_HH_length)
  have "i < length (g_inp gST)" using a by (simp add: wf_hh_def)
  then have "g_inp (update_HH I gST t) ! i = Some 0"
    by (simp add: update_HH_inp)
  then show "g_V (update_HH I (update_HH I gST t) t') ! i =
        int_V_gamma I (g_V (update_HH I gST t) ! i) t' (g_h (update_HH I gST t) ! i)
          (g_n (update_HH I gST t) ! i) (Some 0)"
    using update_HH_V[OF i1, of I t'] by simp
qed

theorem input_accumulator_cleared_witness:
  "(wf_dict (dict_for_neuron_state 1) \<and> 0 < length (d_V (dict_for_neuron_state 1))) \<and>
   (wf_hh hh_example \<and> 0 < length (g_V hh_example)) \<and>
   d_Isyn (neu_update_state (dict_for_neuron_state 1) 0) =
     replicate (length (d_Isyn (dict_for_neuron_state 1))) (Some 0) \<and>
   g_inp (update_HH (exponential_step dt_gamma) hh_example 0) =
     replicate (length (g_inp hh_example)) (Some 0) \<and>
   g_V (update_HH (exponential_step dt_gamma)
          (update_HH (exponential_step dt_gamma) hh_example 0) 0.05) ! 0 =
     int_V_gamma (exponential_step dt_gamma)
       (g_V (update_HH (exponential_step dt_gamma) hh_example 0) ! 0) 0.05
       (g_h (update_HH (exponential_step dt_gamma) hh_example 0) ! 0)
       (g_n (update_HH (exponential_step dt_gamma) hh_example 0) ! 0) (Some 0)"
proof -
  have d: "wf_dict (dict_for_neuron_state 1) \<and> 0 < length (d_V (dict_for_neuron_state 1))"
    by (simp add: examples_wf dict_init_wf)
  have g: "wf_hh hh_example \<and> 0 < length (g_V hh_example)"
    by (simp add: examples_wf)
  show ?thesis
    using d g
      input_accumulator_cleared[of "dict_for_neuron_state 1" 0 "exponential_step dt_gamma"
        hh_example 0 "0.05"]
    by simp
qed

section \<open>The frame of judge_spike\<close>

lemma spikes_at_snoc:
  "k < length ts \<Longrightarrow> spikes_at d (ts @ [t]) k i = spikes_at d ts k i"
  "spikes_at d (ts @ [t]) (length ts) i = spiked (neu_update_state (run_dict d ts) t) i"
  by (simp_all add: spikes_at_def run_dict_snoc)

lemma run_dict_spike_time:
  assumes "wf_dict d" and "i < length (d_V d)"
  shows "(\<forall>k<length ts. spikes_at d ts k i \<and>
            (\<forall>j. k < j \<and> j < length ts \<longrightarrow> \<not> spikes_at d ts j i) \<longrightarrow>
            d_spike_time (run_dict d ts) ! i = Some (ts ! k)) \<and>
         ((\<forall>k<length ts. \<not> spikes_at d ts k i) \<longrightarrow>
            d_spike_time (run_dict d ts) ! i = d_spike_time d ! i)"
proof (induction ts rule: rev_induct)
  case Nil
  show ?case by (simp add: run_dict_def)
next
  case (snoc t ts)
  let ?st = "run_dict d ts"
  let ?st' = "neu_update_state ?st t"
  have wf: "wf_dict ?st" and i: "i < length (d_V ?st)"
    using run_dict_wf[OF assms(1), of ts] assms(2) by simp_all
  have upd: "d_spike_time ?st' ! i = (if spiked ?st' i then Some t else d_spike_time ?st ! i)"
    by (rule neu_update_state_spike_time[OF wf i])
  have run: "run_dict d (ts @ [t]) = ?st'" by (rule run_dict_snoc)
  show ?case
  proof (intro conjI allI impI)
    fix k
    assume k: "k < length (ts @ [t])"
      and last: "spikes_at d (ts @ [t]) k i \<and>
        (\<forall>j. k < j \<and> j < length (ts @ [t]) \<longrightarrow> \<not> spikes_at d (ts @ [t]) j i)"
    show "d_spike_time (run_dict d (ts @ [t])) ! i = Some ((ts @ [t]) ! k)"
    proof (cases "k = length ts")
      case True
      then have "spiked ?st' i" using last spikes_at_snoc(2)[of d ts t i] by simp
      then show ?thesis using upd run True by simp
    next
      case False
      then have kl: "k < length ts" using k by simp
      have "\<not> spikes_at d (ts @ [t]) (length ts) i" using last kl by simp
      then have ns: "\<not> spiked ?st' i" using spikes_at_snoc(2)[of d ts t i] by simp
      have 1: "spikes_at d ts k i" using last spikes_at_snoc(1)[OF kl, of d t i] by simp
      have 2: "\<forall>j. k < j \<and> j < length ts \<longrightarrow> \<not> spikes_at d ts j i"
      proof (intro allI impI)
        fix j assume j: "k < j \<and> j < length ts"
        then have "\<not> spikes_at d (ts @ [t]) j i" using last by simp
        then show "\<not> spikes_at d ts j i" using spikes_at_snoc(1)[of j ts d t i] j by simp
      qed
      have "d_spike_time ?st ! i = Some (ts ! k)" using snoc.IH kl 1 2 by blast
      then show ?thesis using upd ns run kl by (simp add: nth_append)
    qed
  next
    assume never: "\<forall>k<length (ts @ [t]). \<not> spikes_at d (ts @ [t]) k i"
    then have "\<not> spikes_at d (ts @ [t]) (length ts) i" by simp
    then have ns: "\<not> spiked ?st' i" using spikes_at_snoc(2)[of d ts t i] by simp
    have "\<forall>k<length ts. \<not> spikes_at d ts k i"
    proof (intro allI impI)
      fix k assume k: "k < length ts"
      then have "\<not> spikes_at d (ts @ [t]) k i" using never by simp
      then show "\<not> spikes_at d ts k i" using spikes_at_snoc(1)[OF k, of d t i] by simp
    qed
    then have "d_spike_time ?st ! i = d_spike_time d ! i" using snoc.IH by blast
    then show "d_spike_time (run_dict d (ts @ [t])) ! i = d_spike_time d ! i"
      using upd ns run by simp
  qed
qed

text \<open>
  C10. \<open>judge_spike\<close> changes only the entries \<open>above_th\<close>, \<open>spike\<close> and \<open>spike_time\<close> of
  the state: \<open>V\<close>, \<open>m\<close>, \<open>h\<close>, \<open>n\<close>, \<open>Isyn\<close> and \<open>not_ref\<close> are the same arrays afterwards. It
  returns the indices of the neurons whose new \<open>spike\<close> entry is positive and writes the
  time \<open>t\<close> into \<open>spike_time\<close> at these indices only; every other neuron keeps its previous
  \<open>spike_time\<close>. Hence, over a run of \<open>neu_update_state\<close> on the times \<open>ts\<close>, the
  \<open>spike_time\<close> of a neuron is the time of the last step in which it spiked, and its
  initial value, \<open>-1e5\<close> in \<open>dict_for_neuron_state\<close>, if it never spiked.
\<close>

theorem judge_spike_frame:
  "(d_V (snd (judge_spike st vth t)) = d_V st \<and> d_m (snd (judge_spike st vth t)) = d_m st \<and>
    d_h (snd (judge_spike st vth t)) = d_h st \<and> d_n (snd (judge_spike st vth t)) = d_n st \<and>
    d_Isyn (snd (judge_spike st vth t)) = d_Isyn st \<and>
    d_not_ref (snd (judge_spike st vth t)) = d_not_ref st \<and>
    length (d_spike_time (snd (judge_spike st vth t))) = length (d_spike_time st)) \<and>
   (wf_dict st \<and> i < length (d_V st) \<longrightarrow>
      (i \<in> set (fst (judge_spike st vth t)) \<longleftrightarrow> fgt (d_spike (snd (judge_spike st vth t)) ! i) 0) \<and>
      d_spike_time (snd (judge_spike st vth t)) ! i =
        (if i \<in> set (fst (judge_spike st vth t)) then Some t else d_spike_time st ! i)) \<and>
   (wf_dict st \<and> i < length (d_V st) \<longrightarrow>
      (\<forall>k<length ts. spikes_at st ts k i \<and>
            (\<forall>j. k < j \<and> j < length ts \<longrightarrow> \<not> spikes_at st ts j i) \<longrightarrow>
            d_spike_time (run_dict st ts) ! i = Some (ts ! k)) \<and>
      ((\<forall>k<length ts. \<not> spikes_at st ts k i) \<longrightarrow>
            d_spike_time (run_dict st ts) ! i = d_spike_time st ! i)) \<and>
   (i < num \<longrightarrow> d_spike_time (dict_for_neuron_state num) ! i = Some (- 100000))"
proof (intro conjI impI)
  show "d_V (snd (judge_spike st vth t)) = d_V st" "d_m (snd (judge_spike st vth t)) = d_m st"
    "d_h (snd (judge_spike st vth t)) = d_h st" "d_n (snd (judge_spike st vth t)) = d_n st"
    "d_Isyn (snd (judge_spike st vth t)) = d_Isyn st"
    "d_not_ref (snd (judge_spike st vth t)) = d_not_ref st"
    by (rule judge_spike_frame_fields)+
  show "length (d_spike_time (snd (judge_spike st vth t))) = length (d_spike_time st)"
    by (rule judge_spike_spike_time_length)
next
  assume a: "wf_dict st \<and> i < length (d_V st)"
  then have l: "length (d_above_th st) = length (d_V st)"
    and l2: "length (d_spike_time st) = length (d_V st)" and i: "i < length (d_V st)"
    by (simp_all add: wf_dict_def)
  show m: "i \<in> set (fst (judge_spike st vth t)) \<longleftrightarrow>
      fgt (d_spike (snd (judge_spike st vth t)) ! i) 0"
    unfolding judge_spike_idx[of st vth t]
    using i judge_spike_spike_length[OF l, of vth t] by simp
  show "d_spike_time (snd (judge_spike st vth t)) ! i =
        (if i \<in> set (fst (judge_spike st vth t)) then Some t else d_spike_time st ! i)"
    using judge_spike_spike_time_nth[OF l l2 i, of vth t] m by (simp add: spiked_def)
next
  assume a: "wf_dict st \<and> i < length (d_V st)"
  then show "\<forall>k<length ts. spikes_at st ts k i \<and>
            (\<forall>j. k < j \<and> j < length ts \<longrightarrow> \<not> spikes_at st ts j i) \<longrightarrow>
            d_spike_time (run_dict st ts) ! i = Some (ts ! k)"
    using run_dict_spike_time[of st i ts] by blast
  assume "\<forall>k<length ts. \<not> spikes_at st ts k i"
  then show "d_spike_time (run_dict st ts) ! i = d_spike_time st ! i"
    using a run_dict_spike_time[of st i ts] by blast
next
  assume "i < num"
  then show "d_spike_time (dict_for_neuron_state num) ! i = Some (- 100000)"
    by (simp add: dict_for_neuron_state_def)
qed

theorem judge_spike_frame_witness:
  "(wf_dict dict_example \<and> 0 < length (d_V dict_example)) \<and> (0::nat) < 1 \<and>
   fst (judge_spike dict_example 20 7) = [0] \<and>
   d_V (snd (judge_spike dict_example 20 7)) = d_V dict_example \<and>
   d_spike_time (snd (judge_spike dict_example 20 7)) ! 0 = Some 7 \<and>
   d_spike_time (run_dict dict_example []) ! 0 = d_spike_time dict_example ! 0 \<and>
   d_spike_time (dict_for_neuron_state 1) ! 0 = Some (- 100000)"
proof -
  have w: "wf_dict dict_example \<and> 0 < length (d_V dict_example)"
    by (simp add: dict_example_def wf_dict_def dict_for_neuron_state_def)
  have n: "(0::nat) < 1" by simp
  have f: "fst (judge_spike dict_example 20 7) = [0]"
    by (simp add: judge_spike_def dict_example_def dict_for_neuron_state_def Let_def
        of_bool_float_def fge_def fmul_def fsub_def fgt_def)
  show ?thesis
    using w n f judge_spike_frame[of dict_example 20 7 0 "[]" 1]
    by simp
qed

end
